theory Spec2Isabelle
  imports Complex_Main "HOL-Library.Word" "HOL-Library.Product_Lexorder" "HOL-Library.Sublist"
begin

unbundle bit_operations_syntax

section \<open>Conventions\<close>

text \<open>
  The program is JavaScript. Its numbers are modelled as follows.
  \<^item> The state of the seeded generator and every operand of \<open>|\<close>, \<open>^\<close>, \<open>>>>\<close> and
    \<open>Math.imul\<close> is a 32-bit word: addition and multiplication wrap, \<open>>>>\<close> is
    \<open>drop_bit\<close>.
  \<^item> Every other number is a \<open>real\<close>: \<open>+\<close>, \<open>-\<close>, \<open>*\<close>, \<open>/\<close>, \<open>Math.sqrt\<close>,
    \<open>Math.hypot\<close>, \<open>Math.sin\<close>, \<open>Math.cos\<close> and \<open>Math.exp\<close> are the exact operations.
    Rounding to IEEE doubles, NaN and the infinities are outside this model, except
    where \<open>fl\<close> is written: in the cross product of \<open>convexHull\<close>, and in \<open>normalizeGridD\<close>,
    which is \<open>normalizeGrid\<close> in double precision.
  \<^item> Module-level variables are fields of a record that every function takes and returns.
  \<^item> \<open>null\<close> is \<open>None\<close>.
\<close>

section \<open>Double precision\<close>

text \<open>
  \<open>fl\<close> rounds a real to the nearest IEEE 754 double, ties to the even significand:
  \<open>flUp\<close> doubles a magnitude below \<open>2 ^ 53\<close> until its significand has 53 bits or, after
  1074 doublings, until it is on the grid of the subnormal numbers, and rounds it to an
  integer there; \<open>flDown\<close> halves a magnitude of \<open>2 ^ 53\<close> or more. A result of magnitude
  \<open>2 ^ 1024\<close> or more, which is \<open>Infinity\<close> in the code, and NaN are outside the model. A
  decimal literal of the program, such as \<open>0.1\<close>, is \<open>fl\<close> of its value.
\<close>

definition roundHalfEven :: "real \<Rightarrow> int" where
  "roundHalfEven x =
     (let n = \<lfloor>x\<rfloor>; d = x - of_int n
      in if d < 1 / 2 then n else if 1 / 2 < d then n + 1 else if even n then n else n + 1)"

fun flUp :: "nat \<Rightarrow> real \<Rightarrow> real" where
  "flUp n x = (if n = 0 \<or> 2 ^ 52 \<le> x then of_int (roundHalfEven x)
               else flUp (n - 1) (2 * x) / 2)"

fun flDown :: "nat \<Rightarrow> real \<Rightarrow> real" where
  "flDown n x = (if n = 0 \<or> x < 2 ^ 53 then of_int (roundHalfEven x)
                 else 2 * flDown (n - 1) (x / 2))"

definition flAbs :: "real \<Rightarrow> real" where
  "flAbs x = (if x < 2 ^ 53 then flUp 1074 x else flDown 971 x)"

definition fl :: "real \<Rightarrow> real" where
  "fl x = (if x = 0 then 0 else if x < 0 then - flAbs (- x) else flAbs x)"

declare flUp.simps [simp del]
declare flDown.simps [simp del]

section \<open>terrain.js\<close>

subsection \<open>Constants\<close>

type_synonym grid = "real list list"

definition TR_GRID_SIZE :: nat where "TR_GRID_SIZE = 50"
definition TR_WORLD_SIZE :: real where "TR_WORLD_SIZE = 12"
definition TR_BASE_AMP :: real where "TR_BASE_AMP = 1 / 2"
definition TR_TARGET_AMP :: real where "TR_TARGET_AMP = 1 / 10"
definition TR_SMOOTH_PASSES :: nat where "TR_SMOOTH_PASSES = 8"
definition HEIGHT_SCALE :: real where "HEIGHT_SCALE = 1 / 100"
definition TR_MIN_SPEED :: real where "TR_MIN_SPEED = 8 / 10"

subsection \<open>The generators\<close>

text \<open>
  \<open>mulberry32(seed)\<close> returns a closure over the variable \<open>s\<close>. The closure is modelled
  by its state and by \<open>mulberry32_next\<close>, one call of the closure: the value returned and
  the new state.
\<close>

definition mulberry32 :: "int \<Rightarrow> 32 word" where
  "mulberry32 seed = word_of_int seed"

definition mulberry32_next :: "32 word \<Rightarrow> real \<times> 32 word" where
  "mulberry32_next s0 =
     (let s = s0 + 0x6D2B79F5;
          t = (s XOR drop_bit 15 s) * (1 OR s);
          t = (t + (t XOR drop_bit 7 t) * (61 OR t)) XOR t
      in (real (unat (t XOR drop_bit 14 t)) / 4294967296, s))"

text \<open>
  \<open>makeRng(seed)\<close>: the seeded generator when a seed is given, \<open>Math.random\<close> otherwise.
  \<open>Math.random\<close> is an outside source: the sequence of the values it is going to return,
  of which each call takes the first.
\<close>

datatype rng = Seeded "32 word" | Unseeded "nat \<Rightarrow> real"

definition makeRng :: "int option \<Rightarrow> (nat \<Rightarrow> real) \<Rightarrow> rng" where
  "makeRng seed random =
     (case seed of Some n \<Rightarrow> Seeded (mulberry32 n) | None \<Rightarrow> Unseeded random)"

fun rng_fn :: "rng \<Rightarrow> real \<times> rng" where
  "rng_fn (Seeded s) = (let (u, s') = mulberry32_next s in (u, Seeded s'))"
| "rng_fn (Unseeded f) = (f 0, Unseeded (\<lambda>i. f (Suc i)))"

definition uniform :: "rng \<Rightarrow> real \<Rightarrow> real \<Rightarrow> real \<times> rng" where
  "uniform r lo hi = (let (u, r') = rng_fn r in (lo + u * (hi - lo), r'))"

subsection \<open>Noise grids\<close>

text \<open>The inner loop of \<open>makeNoiseGrid\<close>: \<open>n\<close> more cells of the current row.\<close>

primrec makeNoiseRow :: "nat \<Rightarrow> real \<Rightarrow> rng \<Rightarrow> real list \<times> rng" where
  "makeNoiseRow 0 amplitude r = ([], r)"
| "makeNoiseRow (Suc n) amplitude r =
     (let (v, r1) = uniform r (- amplitude) amplitude;
          (row, r2) = makeNoiseRow n amplitude r1
      in (v # row, r2))"

text \<open>The outer loop: \<open>n\<close> more rows of \<open>size\<close> cells.\<close>

primrec makeNoiseRows :: "nat \<Rightarrow> nat \<Rightarrow> real \<Rightarrow> rng \<Rightarrow> grid \<times> rng" where
  "makeNoiseRows 0 sz amplitude r = ([], r)"
| "makeNoiseRows (Suc n) sz amplitude r =
     (let (row, r1) = makeNoiseRow sz amplitude r;
          (rows, r2) = makeNoiseRows n sz amplitude r1
      in (row # rows, r2))"

definition makeNoiseGrid :: "nat \<Rightarrow> real \<Rightarrow> rng \<Rightarrow> grid \<times> rng" where
  "makeNoiseGrid sz amplitude r = makeNoiseRows sz sz amplitude r"

text \<open>
  One cell of a smoothing pass: the loops over \<open>dy\<close> and \<open>dx\<close> add the neighbours that
  lie in the grid, in the order of the source, and count them.
\<close>

definition smoothCell :: "grid \<Rightarrow> int \<Rightarrow> int \<Rightarrow> int \<Rightarrow> real" where
  "smoothCell cur sz y x =
     (let (total, count) =
        foldl (\<lambda>(total, count) (dy, dx).
                 let yy = y + dy; xx = x + dx
                 in if yy \<ge> 0 \<and> yy < sz \<and> xx \<ge> 0 \<and> xx < sz
                    then (total + cur ! nat yy ! nat xx, count + 1)
                    else (total, count))
              (0, 0 :: nat)
              (concat (map (\<lambda>dy. map (\<lambda>dx. (dy, dx)) [-1, 0, 1]) [-1, 0, 1]))
      in total / real count)"

definition smoothPass :: "nat \<Rightarrow> grid \<Rightarrow> grid" where
  "smoothPass sz cur =
     map (\<lambda>y. map (\<lambda>x. smoothCell cur (int sz) (int y) (int x)) [0..<sz]) [0..<sz]"

primrec smoothLoop :: "nat \<Rightarrow> nat \<Rightarrow> grid \<Rightarrow> grid" where
  "smoothLoop 0 sz cur = cur"
| "smoothLoop (Suc p) sz cur = smoothLoop p sz (smoothPass sz cur)"

definition smoothGrid :: "grid \<Rightarrow> nat \<Rightarrow> grid" where
  "smoothGrid grid passes = smoothLoop passes (length grid) grid"

definition gridMaxAbs :: "grid \<Rightarrow> real" where
  "gridMaxAbs grid = foldl (\<lambda>maxAbs row. foldl (\<lambda>maxAbs v. max maxAbs \<bar>v\<bar>) maxAbs row) 0 grid"

definition normalizeGrid :: "grid \<Rightarrow> real \<Rightarrow> grid" where
  "normalizeGrid grid targetAmp =
     (let maxAbs = gridMaxAbs grid
      in if maxAbs < 1 / 10 ^ 9 then grid
         else let scale = targetAmp / maxAbs in map (\<lambda>row. map (\<lambda>v. v * scale) row) grid)"

text \<open>
  \<open>normalizeGrid\<close> as the code computes it in double precision: \<open>Math.max\<close>, \<open>Math.abs\<close> and
  the comparison are exact, the quotient \<open>targetAmp / maxAbs\<close> is rounded, and so is each
  product \<open>v * scale\<close>.
\<close>

definition normalizeGridD :: "grid \<Rightarrow> real \<Rightarrow> grid" where
  "normalizeGridD grid targetAmp =
     (let maxAbs = gridMaxAbs grid
      in if maxAbs < fl (1 / 10 ^ 9) then grid
         else let scale = fl (targetAmp / maxAbs)
              in map (\<lambda>row. map (\<lambda>v. fl (v * scale)) row) grid)"

definition bilinearSample :: "grid \<Rightarrow> real \<Rightarrow> real \<Rightarrow> real \<Rightarrow> real" where
  "bilinearSample grid x z worldSize =
     (let sz = int (length grid);
          half = worldSize / 2;
          u = min (max ((x + half) / worldSize) 0) 1;
          v = min (max ((z + half) / worldSize) 0) 1;
          fx = u * real_of_int (sz - 1);
          fy = v * real_of_int (sz - 1);
          x0 = \<lfloor>fx\<rfloor>;
          y0 = \<lfloor>fy\<rfloor>;
          x1 = min (x0 + 1) (sz - 1);
          y1 = min (y0 + 1) (sz - 1);
          tx = fx - real_of_int x0;
          ty = fy - real_of_int y0;
          v00 = grid ! nat y0 ! nat x0;
          v10 = grid ! nat y0 ! nat x1;
          v01 = grid ! nat y1 ! nat x0;
          v11 = grid ! nat y1 ! nat x1
      in (v00 * (1 - tx) + v10 * tx) * (1 - ty) + (v01 * (1 - tx) + v11 * tx) * ty)"

subsection \<open>Public terrain state\<close>

record terrain =
  TRUE_ROLL_AX :: "grid option"
  TRUE_ROLL_AY :: "grid option"
  HEIGHT_GRID :: "grid option"
  TRUE_ROLL_STRENGTH :: real

definition initialTerrain :: terrain where
  "initialTerrain =
     \<lparr>TRUE_ROLL_AX = None, TRUE_ROLL_AY = None, HEIGHT_GRID = None, TRUE_ROLL_STRENGTH = 1\<rparr>"

definition setTrueRollStrength :: "real \<Rightarrow> terrain \<Rightarrow> terrain" where
  "setTrueRollStrength s T = T\<lparr>TRUE_ROLL_STRENGTH := s\<rparr>"

definition getTrueRollStrength :: "terrain \<Rightarrow> real" where
  "getTrueRollStrength T = TRUE_ROLL_STRENGTH T"

text \<open>
  \<open>buildTrueRollGrids(seed)\<close>. The three calls of \<open>makeNoiseGrid\<close> share one generator,
  in the order of the three assignments of the source.
\<close>

definition buildTrueRollGrids :: "int option \<Rightarrow> (nat \<Rightarrow> real) \<Rightarrow> terrain \<Rightarrow> terrain" where
  "buildTrueRollGrids seed random T =
     (let r = makeRng seed random;
          (g1, r) = makeNoiseGrid TR_GRID_SIZE TR_BASE_AMP r;
          ax = normalizeGrid (smoothGrid g1 TR_SMOOTH_PASSES) TR_TARGET_AMP;
          (g2, r) = makeNoiseGrid TR_GRID_SIZE TR_BASE_AMP r;
          ay = normalizeGrid (smoothGrid g2 TR_SMOOTH_PASSES) TR_TARGET_AMP;
          (g3, r) = makeNoiseGrid TR_GRID_SIZE TR_BASE_AMP r;
          h = normalizeGrid (smoothGrid g3 (TR_SMOOTH_PASSES + 2)) TR_TARGET_AMP
      in T\<lparr>TRUE_ROLL_AX := Some ax, TRUE_ROLL_AY := Some ay, HEIGHT_GRID := Some h\<rparr>)"

definition getTerrainHeight :: "terrain \<Rightarrow> real \<Rightarrow> real \<Rightarrow> real" where
  "getTerrainHeight T x z =
     (case HEIGHT_GRID T of
        None \<Rightarrow> 0
      | Some g \<Rightarrow> bilinearSample g x z TR_WORLD_SIZE * HEIGHT_SCALE)"

text \<open>A three-element array \<open>[x, y, z]\<close> or an object \<open>{x, y, z}\<close>.\<close>

type_synonym vec3 = "real \<times> real \<times> real"

definition getTerrainNormal :: "terrain \<Rightarrow> real \<Rightarrow> real \<Rightarrow> vec3" where
  "getTerrainNormal T x z =
     (let eps = 5 / 100;
          hpx = getTerrainHeight T (x + eps) z;
          hnx = getTerrainHeight T (x - eps) z;
          hpz = getTerrainHeight T x (z + eps);
          hnz = getTerrainHeight T x (z - eps);
          dx = (hpx - hnx) / (2 * eps);
          dz = (hpz - hnz) / (2 * eps);
          nx = - dx; ny = 1; nz = - dz;
          len = sqrt (nx * nx + ny * ny + nz * nz)
      in (nx / len, ny / len, nz / len))"

definition hypot :: "real \<Rightarrow> real \<Rightarrow> real" where
  "hypot a b = sqrt (a * a + b * b)"

text \<open>
  The value of the variable \<open>scale\<close> of \<open>trueRollAccel\<close> before it is multiplied by
  \<open>TRUE_ROLL_STRENGTH\<close>, as a function of the speed.
\<close>

definition trueRollScale :: "real \<Rightarrow> real" where
  "trueRollScale speed =
     (if speed \<ge> 1 then 1 / 10
      else if speed \<le> TR_MIN_SPEED then 2
      else 2 - (speed - TR_MIN_SPEED) / (2 - TR_MIN_SPEED))"

text \<open>
  \<open>trueRollAccel\<close> tests \<open>TRUE_ROLL_AX\<close> only. \<open>buildTrueRollGrids\<close> assigns the three
  grids together, so \<open>TRUE_ROLL_AY\<close> is set whenever \<open>TRUE_ROLL_AX\<close> is; a state with only
  one of them set does not arise and is given the result \<open>(0, 0)\<close> here.
\<close>

definition trueRollAccel :: "terrain \<Rightarrow> real \<Rightarrow> real \<Rightarrow> real \<Rightarrow> real \<Rightarrow> real \<times> real" where
  "trueRollAccel T x z velx velz =
     (case (TRUE_ROLL_AX T, TRUE_ROLL_AY T) of
        (Some gx, Some gy) \<Rightarrow>
          if TRUE_ROLL_STRENGTH T \<le> 0 then (0, 0)
          else let speed = hypot velx velz;
                   scale = trueRollScale speed * TRUE_ROLL_STRENGTH T
               in (bilinearSample gx x z TR_WORLD_SIZE * scale,
                   bilinearSample gy x z TR_WORLD_SIZE * scale)
      | _ \<Rightarrow> (0, 0))"

section \<open>main.js\<close>

subsection \<open>Constants\<close>

definition GREEN_SIZE :: real where "GREEN_SIZE = 10"
definition BALL_RADIUS_M :: real where "BALL_RADIUS_M = 215 / 10000"
definition HOLE_RADIUS_M :: real where "HOLE_RADIUS_M = 2 * BALL_RADIUS_M"
definition STIMP_V0 :: real where "STIMP_V0 = 183 / 100"
definition GRAVITY :: real where "GRAVITY = 981 / 100"
definition ROLLING_FACTOR :: real where "ROLLING_FACTOR = 5 / 7"
definition BOUNCE_DAMPING :: real where "BOUNCE_DAMPING = 3 / 10"
definition BOUNCE_FRICTION :: real where "BOUNCE_FRICTION = 8 / 10"
definition MIN_BOUNCE_VEL :: real where "MIN_BOUNCE_VEL = 5 / 100"
definition LANDING_THRESHOLD :: real where "LANDING_THRESHOLD = 1 / 1000"
definition STIMP_DEFAULT :: real where "STIMP_DEFAULT = 3"
definition MAX_GHOST_DIST :: real where "MAX_GHOST_DIST = 35 / 100"
definition LAUNCH_ANGLE_DEFAULT :: real where "LAUNCH_ANGLE_DEFAULT = 5"
definition SPIN_EFFECT_STRENGTH :: real where "SPIN_EFFECT_STRENGTH = 15 / 100"
definition SPIN_DECAY_RATE :: real where "SPIN_DECAY_RATE = 2"
definition MAX_TRAIL_PTS :: nat where "MAX_TRAIL_PTS = 5000"

definition stimpToMu :: "real \<Rightarrow> real" where
  "stimpToMu s = (let v0 = 183 / 100 in v0 * v0 / (2 * GRAVITY * s))"

subsection \<open>Game state\<close>

text \<open>
  The module-level variables that \<open>shoot\<close>, \<open>updatePhysics\<close> and the functions they call
  read or write. Of the scene objects, the record keeps what later steps read back:
  \<^item> the trail: \<open>currentTrailLine\<close> holds the points of the current segment, \<open>trailLines\<close>
    the points of the segments before it;
  \<^item> \<open>aimPtGroup\<close>: for each aim marker, its position and whether its colour is the blue
    one;
  \<^item> \<open>ghostGroup\<close>: where the ghost cross was placed, if it was.
  The rotation of the ball mesh and the rebuilding of meshes from these variables
  (\<open>rebuildBreakMarkers\<close>, \<open>rebuildGoodAimZone\<close>) are not modelled.
\<close>

type_synonym point = "real \<times> real"

record game =
  terrainState :: terrain
  angleDeg :: real
  stimpM :: real
  ballPos :: vec3
  ballVel :: vec3
  ballMoving :: bool
  ballOnCircle :: bool
  ballAirborne :: bool
  inHole :: bool
  travelDist :: real
  launchAngleDeg :: real
  bounceCount :: nat
  maxHeight :: real
  ballSpin :: real
  breakPoints :: "(point \<times> point) list"
  breakLocked :: bool
  prevVz :: "real option"
  prevPosForVz :: "point option"
  aimWorld :: vec3
  shotAimPoints :: "vec3 list"
  validAimPts :: "point list"
  lastShotStartPos :: "point option"
  trailLines :: "vec3 list list"
  currentTrailLine :: "vec3 list option"
  aimPtGroup :: "(vec3 \<times> bool) list"
  ghostGroup :: "point option"

subsection \<open>Trail and aim markers\<close>

definition addTrailPoint :: "real \<Rightarrow> real \<Rightarrow> real \<Rightarrow> game \<Rightarrow> game" where
  "addTrailPoint x y z g =
     (let seg = (case currentTrailLine g of None \<Rightarrow> [] | Some seg \<Rightarrow> seg)
      in if length seg \<ge> MAX_TRAIL_PTS then g\<lparr>currentTrailLine := Some seg\<rparr>
         else if length seg > 0
                 \<and> (let (lx, ly, lz) = last seg; dx = x - lx; dz = z - lz
                    in dx * dx + dz * dz < 4 / 10000)
              then g\<lparr>currentTrailLine := Some seg\<rparr>
         else g\<lparr>currentTrailLine := Some (seg @ [(x, y, z)])\<rparr>)"

definition addAimPointMarker :: "vec3 \<Rightarrow> game \<Rightarrow> game" where
  "addAimPointMarker pt g =
     (let (x, y, z) = pt
      in g\<lparr>aimPtGroup := aimPtGroup g @ [((x, y + 2 / 100, z), False)]\<rparr>)"

definition colorLastAimPoint :: "bool \<Rightarrow> game \<Rightarrow> game" where
  "colorLastAimPoint madeIt g =
     (if length (aimPtGroup g) = 0 then g
      else let (pos, _) = last (aimPtGroup g);
               (x, y, z) = pos;
               g = g\<lparr>aimPtGroup := butlast (aimPtGroup g) @ [(pos, madeIt)]\<rparr>
           in if madeIt then g\<lparr>validAimPts := validAimPts g @ [(x, z)]\<rparr> else g)"

definition placeGhostCross :: "real \<Rightarrow> real \<Rightarrow> game \<Rightarrow> game" where
  "placeGhostCross x z g = g\<lparr>ghostGroup := Some (x, z)\<rparr>"

subsection \<open>Ghost ball rest position\<close>

text \<open>The local variables of \<open>simulateGhostRest\<close> that live across iterations.\<close>

record ghost =
  g_px :: real
  g_py :: real
  g_pz :: real
  g_vx :: real
  g_vy :: real
  g_vz :: real
  g_spin :: real
  g_airborne :: bool

text \<open>
  The body of the loop from the ground check to the assignment of the new position. The
  globals it reads are the terrain, \<open>angleDeg\<close> and \<open>stimpM\<close>.
\<close>

definition ghostStep :: "terrain \<Rightarrow> real \<Rightarrow> real \<Rightarrow> ghost \<Rightarrow> ghost" where
  "ghostStep T angleDeg' stimpM' s =
     (let simDt = 1 / 120;
          px = g_px s; py = g_py s; pz = g_pz s;
          vx = g_vx s; vy = g_vy s; vz = g_vz s;
          angleRad = angleDeg' * pi / 180;
          muRoll = stimpToMu stimpM';
          speed = hypot vx vz;
          terrainH = getTerrainHeight T px pz;
          heightAbove = py - BALL_RADIUS_M - terrainH;
          airborne = heightAbove > LANDING_THRESHOLD;
          (ax, ay, az, spin, vy) =
            (if \<not> airborne then
               let az = 0 + GRAVITY * sin angleRad * ROLLING_FACTOR;
                   (ax, az) =
                     (if speed > 1 / 10000 then
                        let (nx, ny, nz) = getTerrainNormal T px pz;
                            friction = muRoll * GRAVITY * \<bar>ny\<bar>;
                            spinMod = 1 + g_spin s * SPIN_EFFECT_STRENGTH;
                            spinMod = max (1 / 2) (min (3 / 2) spinMod);
                            ax = 0 - friction * spinMod * (vx / speed);
                            az = az - friction * spinMod * (vz / speed);
                            ax = ax + - nx * GRAVITY * ROLLING_FACTOR;
                            az = az + - nz * GRAVITY * ROLLING_FACTOR
                        in (ax, az)
                      else (0, az));
                   spin = g_spin s * exp (- SPIN_DECAY_RATE * simDt);
                   spin = (if \<bar>spin\<bar> < 1 / 100 then 0 else spin);
                   (trax, traz) = trueRollAccel T px pz vx vz;
                   ax = ax + trax;
                   az = az + traz
               in (ax, 0, az, spin, 0)
             else (0, - GRAVITY, 0 + GRAVITY * sin angleRad, g_spin s, vy));
          vx = vx + ax * simDt;
          vy = vy + ay * simDt;
          vz = vz + az * simDt;
          nx = px + vx * simDt;
          ny = py + vy * simDt;
          nz = pz + vz * simDt;
          minY = getTerrainHeight T nx nz + BALL_RADIUS_M;
          (ny, vx, vy, vz, airborne) =
            (if ny < minY then
               if airborne \<and> \<bar>vy\<bar> > MIN_BOUNCE_VEL
               then (minY, vx * BOUNCE_FRICTION, - vy * BOUNCE_DAMPING, vz * BOUNCE_FRICTION,
                     airborne)
               else (minY, vx, 0, vz, False)
             else (ny, vx, vy, vz, airborne))
      in \<lparr>g_px = nx, g_py = ny, g_pz = nz, g_vx = vx, g_vy = vy, g_vz = vz,
          g_spin = spin, g_airborne = airborne\<rparr>)"

text \<open>
  The loop \<open>for (let step = 0; step < 20000; step++)\<close> from the value \<open>step\<close> of its
  variable on. The result is the number of times the body of \<open>ghostStep\<close> ran and the
  locals when the loop is left: by the stop test, by the test for leaving the green, or
  by its bound.
\<close>

function ghostLoop :: "terrain \<Rightarrow> real \<Rightarrow> real \<Rightarrow> nat \<Rightarrow> ghost \<Rightarrow> nat \<times> ghost" where
  "ghostLoop T angleDeg' stimpM' step s =
     (if step < 20000 then
        let speed = hypot (g_vx s) (g_vz s)
        in if speed < 2 / 100 \<and> \<not> g_airborne s then (0, s)
           else let s = ghostStep T angleDeg' stimpM' s;
                    half = GREEN_SIZE / 2
                in if \<bar>g_px s\<bar> > half \<or> \<bar>g_pz s\<bar> > half then (1, s)
                   else let (n, s) = ghostLoop T angleDeg' stimpM' (step + 1) s
                        in (n + 1, s)
      else (0, s))"
  by pat_completeness auto
termination
  by (relation "measure (\<lambda>(T, a, m, step, s). 20000 - step)") auto

definition ghostStart :: "vec3 \<Rightarrow> vec3 \<Rightarrow> real \<Rightarrow> ghost" where
  "ghostStart startPos startVel startSpin =
     (let (px, py, pz) = startPos; (vx, vy, vz) = startVel
      in \<lparr>g_px = px, g_py = py, g_pz = pz, g_vx = vx, g_vy = vy, g_vz = vz,
          g_spin = startSpin, g_airborne = False\<rparr>)"

definition simulateGhostRest :: "terrain \<Rightarrow> real \<Rightarrow> real \<Rightarrow> vec3 \<Rightarrow> vec3 \<Rightarrow> real \<Rightarrow> point" where
  "simulateGhostRest T angleDeg' stimpM' startPos startVel startSpin =
     (let (n, s) = ghostLoop T angleDeg' stimpM' 0 (ghostStart startPos startVel startSpin)
      in (g_px s, g_pz s))"

subsection \<open>Good aim zone\<close>

text \<open>
  A point \<open>{x, z}\<close> is a pair. The comparator of the sort is \<open>cmp\<close>; it is negative,
  zero or positive as the first point is below, equal to or above the second in the
  lexicographic order of pairs, so the sorted array is \<open>sort\<close> of the list.
\<close>

definition cmp :: "point \<Rightarrow> point \<Rightarrow> real" where
  "cmp a b = (if fst a - fst b \<noteq> 0 then fst a - fst b else snd a - snd b)"

text \<open>
  The scan keeps or drops a point by the sign of a cross product, which can round to
  zero, so this arithmetic is as the code computes it, in double precision: each of the
  seven operations of \<open>cross\<close> is rounded once.
\<close>

definition cross :: "point \<Rightarrow> point \<Rightarrow> point \<Rightarrow> real" where
  "cross O' A B = fl (fl (fl (fst A - fst O') * fl (snd B - snd O'))
                      - fl (fl (snd A - snd O') * fl (fst B - fst O')))"

text \<open>The \<open>while\<close> loop that pops the end of the array \<open>lower\<close> or \<open>upper\<close>.\<close>

function hullPop :: "point list \<Rightarrow> point \<Rightarrow> point list" where
  "hullPop st p =
     (if length st \<ge> 2 \<and> cross (st ! (length st - 2)) (st ! (length st - 1)) p \<le> 0
      then hullPop (butlast st) p else st)"
  by pat_completeness auto
termination
  by (relation "measure (\<lambda>(st, p). length st)") auto

definition hullPush :: "point list \<Rightarrow> point \<Rightarrow> point list" where
  "hullPush st p = hullPop st p @ [p]"

definition convexHull :: "point list \<Rightarrow> point list" where
  "convexHull points =
     (let pts = sort points
      in if length pts \<le> 2 then pts
         else let lower = foldl hullPush [] pts;
                  upper = foldl hullPush [] (rev pts)
              in butlast lower @ butlast upper)"

record ellipse =
  el_cx :: real
  el_cz :: real
  el_a :: real
  el_b :: real
  el_ex :: real
  el_ez :: real
  el_fx :: real
  el_fz :: real

text \<open>
  \<open>boundingEllipse\<close>. Its three loops over the hull points are \<open>sumPoints\<close> (the sums
  for the centroid), \<open>sumCovariance\<close> (the sums for the covariance matrix) and
  \<open>maxExtent\<close> (the largest absolute projections on the two axes).
\<close>

definition sumPoints :: "point list \<Rightarrow> real \<times> real" where
  "sumPoints hull' = foldl (\<lambda>(cx, cz) (x, z). (cx + x, cz + z)) (0, 0) hull'"

definition sumCovariance :: "real \<Rightarrow> real \<Rightarrow> point list \<Rightarrow> real \<times> real \<times> real" where
  "sumCovariance cx cz hull' =
     foldl (\<lambda>(cxx, cxz, czz) (x, z).
              let dx = x - cx; dz = z - cz
              in (cxx + dx * dx, cxz + dx * dz, czz + dz * dz))
           (0, 0, 0) hull'"

definition maxExtent ::
  "real \<Rightarrow> real \<Rightarrow> real \<Rightarrow> real \<Rightarrow> real \<Rightarrow> real \<Rightarrow> point list \<Rightarrow> real \<times> real" where
  "maxExtent cx cz ex ez fx fz hull' =
     foldl (\<lambda>(maxA, maxB) (x, z).
              let dx = x - cx; dz = z - cz;
                  a = \<bar>dx * ex + dz * ez\<bar>;
                  b = \<bar>dx * fx + dz * fz\<bar>
              in (if a > maxA then a else maxA, if b > maxB then b else maxB))
           (0, 0) hull'"

definition boundingEllipse :: "point list \<Rightarrow> ellipse" where
  "boundingEllipse hull' =
     (let n = real (length hull');
          (cx, cz) = sumPoints hull';
          cx = cx / n;
          cz = cz / n;
          (cxx, cxz, czz) = sumCovariance cx cz hull';
          cxx = cxx / n;
          cxz = cxz / n;
          czz = czz / n;
          avg = (cxx + czz) / 2;
          diff = (cxx - czz) / 2;
          disc = sqrt (diff * diff + cxz * cxz);
          lam1 = avg + disc;
          (ex, ez) =
            (if \<bar>cxz\<bar> > 1 / 10 ^ 12 then (lam1 - czz, cxz)
             else (if cxx \<ge> czz then 1 else 0, if cxx \<ge> czz then 0 else 1));
          elen = hypot ex ez;
          ex = ex / elen;
          ez = ez / elen;
          fx = - ez;
          fz = ex;
          (maxA, maxB) = maxExtent cx cz ex ez fx fz hull';
          maxA = maxA * (105 / 100);
          maxB = maxB * (105 / 100)
      in \<lparr>el_cx = cx, el_cz = cz, el_a = maxA, el_b = maxB,
          el_ex = ex, el_ez = ez, el_fx = fx, el_fz = fz\<rparr>)"

subsection \<open>Actions\<close>

definition shoot :: "game \<Rightarrow> game" where
  "shoot g =
     (let (bx, by, bz) = ballPos g;
          (aimx, aimy, aimz) = aimWorld g;
          dirX = aimx - bx;
          dirZ = aimz - bz;
          len = hypot dirX dirZ
      in if len < 1 / 10 ^ 6 then g
         else
           let speedH = STIMP_V0 * sqrt (len / stimpM g);
               dxn = dirX / len;
               dzn = dirZ / len;
               launchRad = launchAngleDeg g * pi / 180;
               totalSpeed = speedH / cos launchRad;
               g = g\<lparr>lastShotStartPos := Some (bx, bz),
                      ballVel := (speedH * dxn, totalSpeed * sin launchRad, speedH * dzn),
                      ballMoving := True,
                      ballOnCircle := False,
                      ballAirborne := (launchAngleDeg g \<noteq> 0),
                      inHole := False,
                      bounceCount := 0,
                      maxHeight := by,
                      ballSpin := launchAngleDeg g / 15,
                      travelDist := 0\<rparr>;
               g = (if currentTrailLine g = None \<or> currentTrailLine g = Some []
                    then addTrailPoint bx by bz g else g);
               g = g\<lparr>shotAimPoints := shotAimPoints g @ [aimWorld g]\<rparr>;
               g = addAimPointMarker (aimWorld g) g
           in g\<lparr>breakPoints := [],
                 breakLocked := False,
                 prevVz := None,
                 prevPosForVz := Some (bx, bz)\<rparr>)"

subsection \<open>Physics\<close>

text \<open>
  \<open>updatePhysics\<close> in three parts. \<open>integrateStep\<close> is the function from the ground
  check to \<open>// Commit new position\<close>: it returns the state with the new position,
  velocity, spin and flags, and the value of \<open>closestDist\<close>. Its floor check is
  \<open>floorLevel\<close> and \<open>floorCheck\<close>.
\<close>

text \<open>
  The value of \<open>minBallY\<close> under \<open>// Floor check\<close>: the lowest height of the ball centre
  at the new position \<open>(newX, newZ)\<close>, from the height \<open>by\<close> of the ball before the
  step and its new horizontal velocity.
\<close>

definition floorLevel :: "terrain \<Rightarrow> real \<Rightarrow> real \<Rightarrow> real \<Rightarrow> real \<Rightarrow> real \<Rightarrow> real" where
  "floorLevel T by vx vz newX newZ =
     (let holeDepth = 40 / 100;
          dhn = hypot newX newZ
      in if dhn \<le> HOLE_RADIUS_M + BALL_RADIUS_M * (1 / 2) then
           let sxzf = hypot vx vz;
               belowf = by < BALL_RADIUS_M * (1 / 2)
           in if sxzf < 145 / 100 \<or> belowf then - holeDepth + BALL_RADIUS_M
              else getTerrainHeight T newX newZ + BALL_RADIUS_M
         else getTerrainHeight T newX newZ + BALL_RADIUS_M)"

text \<open>
  The \<open>if (newY < minBallY)\<close> that follows: the new height, the velocity, the airborne
  flag and the bounce count after the bounce or the landing.
\<close>

definition floorCheck ::
  "real \<Rightarrow> real \<Rightarrow> real \<Rightarrow> real \<Rightarrow> real \<Rightarrow> bool \<Rightarrow> nat
     \<Rightarrow> real \<times> real \<times> real \<times> real \<times> bool \<times> nat" where
  "floorCheck newY minBallY vx vy vz airborne bounceCount' =
     (if newY < minBallY then
        if airborne \<and> \<bar>vy\<bar> > MIN_BOUNCE_VEL
        then (minBallY, vx * BOUNCE_FRICTION, - vy * BOUNCE_DAMPING,
              vz * BOUNCE_FRICTION, airborne, bounceCount' + 1)
        else (minBallY, vx, 0, vz, False, bounceCount')
      else (newY, vx, vy, vz, airborne, bounceCount'))"

definition integrateStep :: "real \<Rightarrow> game \<Rightarrow> game \<times> real" where
  "integrateStep dt g =
     (let T = terrainState g;
          (bx, by, bz) = ballPos g;
          (vx, vy, vz) = ballVel g;
          angleRad = angleDeg g * pi / 180;
          muRoll = stimpToMu (stimpM g);
          holeDepth = 40 / 100;
          distToHoleCur = hypot bx bz;
          overHole = distToHoleCur \<le> HOLE_RADIUS_M + BALL_RADIUS_M * (1 / 2);
          groundLevel =
            (if overHole then
               let sxz = hypot vx vz;
                   below = by < BALL_RADIUS_M * (1 / 2)
               in if sxz < 145 / 100 \<or> below then - holeDepth else getTerrainHeight T bx bz
             else getTerrainHeight T bx bz);
          heightAbove = by - BALL_RADIUS_M - groundLevel;
          airborne = heightAbove > LANDING_THRESHOLD;
          (ax, ay, az, spin, vy) =
            (if \<not> airborne then
               let speed = hypot vx vz;
                   az = 0 + GRAVITY * sin angleRad * ROLLING_FACTOR;
                   (ax, az) =
                     (if speed > 1 / 10000 then
                        let (nx, ny, nz) = getTerrainNormal T bx bz;
                            friction = muRoll * GRAVITY * \<bar>ny\<bar>;
                            spinMod = 1 + ballSpin g * SPIN_EFFECT_STRENGTH;
                            spinMod = max (1 / 2) (min (3 / 2) spinMod);
                            ax = 0 - friction * spinMod * (vx / speed);
                            az = az - friction * spinMod * (vz / speed);
                            ax = ax + - nx * GRAVITY * ROLLING_FACTOR;
                            az = az + - nz * GRAVITY * ROLLING_FACTOR
                        in (ax, az)
                      else (0, az));
                   spin = ballSpin g * exp (- SPIN_DECAY_RATE * dt);
                   spin = (if \<bar>spin\<bar> < 1 / 100 then 0 else spin);
                   (trax, traz) = trueRollAccel T bx bz vx vz;
                   ax = ax + trax;
                   az = az + traz
               in (ax, 0, az, spin, 0)
             else (0, - GRAVITY, 0 + GRAVITY * sin angleRad, ballSpin g, vy));
          vx = vx + ax * dt;
          vy = vy + ay * dt;
          vz = vz + az * dt;
          newX = bx + vx * dt;
          newY = by + vy * dt;
          newZ = bz + vz * dt;
          maxHeight' = (if newY > maxHeight g then newY else maxHeight g);
          minBallY = floorLevel T by vx vz newX newZ;
          (newY, vx, vy, vz, airborne, bounceCount') =
            floorCheck newY minBallY vx vy vz airborne (bounceCount g);
          distMoved = hypot (newX - bx) (newZ - bz);
          travelDist' = travelDist g + distMoved;
          oldX = bx;
          oldZ = bz;
          segDx = newX - oldX;
          segDz = newZ - oldZ;
          segLenSq = segDx * segDx + segDz * segDz;
          closestDist =
            (if segLenSq > 1 / 10 ^ 12 then
               let tc = max 0 (min 1 (- (oldX * segDx + oldZ * segDz) / segLenSq))
               in hypot (oldX + tc * segDx) (oldZ + tc * segDz)
             else hypot newX newZ)
      in (g\<lparr>ballPos := (newX, newY, newZ),
             ballVel := (vx, vy, vz),
             ballAirborne := airborne,
             ballSpin := spin,
             bounceCount := bounceCount',
             maxHeight := maxHeight',
             travelDist := travelDist'\<rparr>,
          closestDist))"

text \<open>
  The three conditions of \<open>// Hole capture check\<close> on the state that \<open>integrateStep\<close>
  returns.
\<close>

definition crossedHole :: "real \<Rightarrow> game \<Rightarrow> bool" where
  "crossedHole closestDist g \<longleftrightarrow> closestDist \<le> HOLE_RADIUS_M \<and> \<not> ballAirborne g"

definition ballDroppedIn :: "game \<Rightarrow> bool" where
  "ballDroppedIn g =
     (let (px, py, pz) = ballPos g;
          distToHole = hypot px pz
      in distToHole \<le> HOLE_RADIUS_M + BALL_RADIUS_M \<and> py < BALL_RADIUS_M * (1 / 2))"

definition distToHole :: "game \<Rightarrow> real" where
  "distToHole g = (let (px, py, pz) = ballPos g in hypot px pz)"

definition speedXz :: "game \<Rightarrow> real" where
  "speedXz g = (let (vx, vy, vz) = ballVel g in hypot vx vz)"

text \<open>The \<open>if\<close> after \<open>// Hole capture check\<close>: capture, lip-out, stop or trail point.\<close>

definition holeCapture :: "real \<Rightarrow> game \<Rightarrow> game" where
  "holeCapture closestDist g =
     (let holeDepth = 40 / 100;
          holeBottom = - holeDepth + BALL_RADIUS_M;
          (px, py, pz) = ballPos g;
          (vx, vy, vz) = ballVel g
      in if ballDroppedIn g \<or> distToHole g \<le> HOLE_RADIUS_M \<or> crossedHole closestDist g then
           if ballDroppedIn g \<or> (\<not> ballAirborne g \<and> speedXz g < 145 / 100) then
             let ghostPos = ballPos g;
                 ghostVel = ballVel g;
                 ghostSpin = ballSpin g;
                 (px, pz) = (if crossedHole closestDist g \<and> distToHole g > HOLE_RADIUS_M
                             then (0, 0) else (px, pz));
                 g = g\<lparr>ballMoving := False,
                        ballVel := (0, 0, 0),
                        ballPos := (px, holeBottom, pz),
                        inHole := True\<rparr>;
                 g = addTrailPoint px holeBottom pz g;
                 (restx, restz) =
                   simulateGhostRest (terrainState g) (angleDeg g) (stimpM g)
                     ghostPos ghostVel ghostSpin;
                 g = placeGhostCross restx restz g;
                 ghostDist = hypot restx restz
             in colorLastAimPoint (ghostDist \<le> MAX_GHOST_DIST) g
           else if distToHole g \<le> HOLE_RADIUS_M then
             g\<lparr>ballVel := (vx * (92 / 100), vy, vz * (92 / 100))\<rparr>
           else g
         else if speedXz g < 2 / 100 \<and> \<not> ballAirborne g then
           colorLastAimPoint False (g\<lparr>ballMoving := False, ballVel := (0, 0, 0)\<rparr>)
         else addTrailPoint px py pz g)"

text \<open>
  \<open>// Break point detection\<close>. \<open>prevPosForVz\<close> is assigned wherever \<open>prevVz\<close> is
  assigned a number, so it is set when \<open>prevVz\<close> is; the case where it is not leaves the
  break points as they are.
\<close>

definition breakDetect :: "game \<Rightarrow> game" where
  "breakDetect g =
     (if ballMoving g \<and> \<not> breakLocked g \<and> \<not> inHole g \<and> \<not> ballAirborne g then
        let (px, py, pz) = ballPos g;
            (velx, vely, velz) = ballVel g;
            vz = velz;
            g = (case (prevVz g, prevPosForVz g) of
                   (Some pvz, Some (ppx, ppz)) \<Rightarrow>
                     if (pvz < 0 \<and> vz \<ge> 0) \<or> (pvz > 0 \<and> vz \<le> 0) then
                       let denom = pvz - vz;
                           t = (if \<bar>denom\<bar> > 1 / 10 ^ 6 then pvz / denom else 0);
                           bpx = ppx + (px - ppx) * t;
                           bpz = ppz + (pz - ppz) * t
                       in g\<lparr>breakPoints := breakPoints g @ [((bpx, bpz), (- vz, velx))],
                             breakLocked := True\<rparr>
                     else if \<bar>vz\<bar> \<le> 1 / 100 then
                       g\<lparr>breakPoints := breakPoints g @ [((px, pz), (- vz, velx))],
                         breakLocked := True\<rparr>
                     else g
                 | _ \<Rightarrow> g)
        in g\<lparr>prevVz := Some vz, prevPosForVz := Some (px, pz)\<rparr>
      else g)"

definition updatePhysics :: "real \<Rightarrow> game \<Rightarrow> game" where
  "updatePhysics dt g =
     (if \<not> ballMoving g then g
      else let (g, closestDist) = integrateStep dt g
           in breakDetect (holeCapture closestDist g))"

section \<open>Auxiliary notions\<close>

text \<open>A grid of \<open>n\<close> rows of \<open>n\<close> cells, and a grid whose cells are at most \<open>B\<close> in absolute value.\<close>

definition squareGrid :: "nat \<Rightarrow> grid \<Rightarrow> bool" where
  "squareGrid n g \<longleftrightarrow> length g = n \<and> list_all (\<lambda>row. length row = n) g"

definition gridBounded :: "real \<Rightarrow> grid \<Rightarrow> bool" where
  "gridBounded B g \<longleftrightarrow> list_all (list_all (\<lambda>v. \<bar>v\<bar> \<le> B)) g"

text \<open>
  The terrain that \<open>buildTrueRollGrids(null)\<close> builds when every call of \<open>Math.random\<close>
  returns 0.5: every noise sample is 0, so the three grids are zero.
\<close>

definition flatTerrain :: terrain where
  "flatTerrain = buildTrueRollGrids None (\<lambda>i. 1 / 2) initialTerrain"

definition zeroGrid :: "nat \<Rightarrow> grid" where
  "zeroGrid n = replicate n (replicate n 0)"

section \<open>States used as examples\<close>

text \<open>
  \<open>initialGame\<close> holds the initial values of the module-level variables of main.js;
  \<open>rollingGame x velx\<close> is a ball on the flat terrain, on the ground at \<open>(x, 0)\<close>,
  rolling along the x axis at speed \<open>velx\<close>.
\<close>

definition initialGame :: "terrain \<Rightarrow> game" where
  "initialGame T =
     \<lparr>terrainState = T, angleDeg = 0, stimpM = STIMP_DEFAULT,
      ballPos = (3, getTerrainHeight T 3 0 + BALL_RADIUS_M, 0), ballVel = (0, 0, 0),
      ballMoving = False, ballOnCircle = True, ballAirborne = False, inHole = False,
      travelDist = 0, launchAngleDeg = LAUNCH_ANGLE_DEFAULT, bounceCount = 0, maxHeight = 0,
      ballSpin = 0, breakPoints = [], breakLocked = False, prevVz = None,
      prevPosForVz = None, aimWorld = (3, 0, 0), shotAimPoints = [], validAimPts = [],
      lastShotStartPos = None, trailLines = [], currentTrailLine = None, aimPtGroup = [],
      ghostGroup = None\<rparr>"

definition rollingGame :: "real \<Rightarrow> real \<Rightarrow> game" where
  "rollingGame x velx =
     (initialGame flatTerrain)\<lparr>ballPos := (x, BALL_RADIUS_M, 0), ballVel := (velx, 0, 0),
        ballMoving := True, ballOnCircle := False, launchAngleDeg := 0\<rparr>"

declare ghostLoop.simps [simp del]
declare hullPop.simps [simp del]

section \<open>The stream of draws\<close>

text \<open>
  \<open>rng_skip n r\<close> is the generator \<open>r\<close> after \<open>n\<close> calls, \<open>draw r i\<close> the value of call
  number \<open>i\<close> (from 0), and \<open>noiseFrom r off sz amplitude\<close> the grid whose cell
  \<open>(y, x)\<close> is the uniform sample made from draw number \<open>off + y * sz + x\<close>.
  \<open>constGrid n c\<close> is the \<open>n\<close> by \<open>n\<close> grid with \<open>c\<close> in every cell. \<open>halfSource\<close> and
  \<open>lateSource\<close> are two sequences of values of \<open>Math.random\<close>: the first is 0.5 throughout,
  the second is 0.5 for the first 5000 calls and 0.75 afterwards.
\<close>

primrec rng_skip :: "nat \<Rightarrow> rng \<Rightarrow> rng" where
  "rng_skip 0 r = r"
| "rng_skip (Suc n) r = rng_skip n (snd (rng_fn r))"

definition draw :: "rng \<Rightarrow> nat \<Rightarrow> real" where
  "draw r i = fst (rng_fn (rng_skip i r))"

definition noiseFrom :: "rng \<Rightarrow> nat \<Rightarrow> nat \<Rightarrow> real \<Rightarrow> grid" where
  "noiseFrom r off sz amplitude =
     map (\<lambda>y. map (\<lambda>x. - amplitude + draw r (off + y * sz + x) * (amplitude - - amplitude))
                 [0..<sz]) [0..<sz]"

definition constGrid :: "nat \<Rightarrow> real \<Rightarrow> grid" where
  "constGrid n c = replicate n (replicate n c)"

definition halfSource :: "nat \<Rightarrow> real" where
  "halfSource i = 1 / 2"

definition lateSource :: "nat \<Rightarrow> real" where
  "lateSource i = (if i < 5000 then 1 / 2 else 3 / 4)"

section \<open>Polygons and the scan of the hull\<close>

text \<open>
  \<open>crossExact\<close> is the cross product without rounding: it is positive when \<open>O', A, B\<close>
  make a left turn, zero when they are on one line. The geometry of the result is stated
  with it. A closed polygon is the list of its vertices. \<open>leftTurns\<close> holds of a walk when every
  three consecutive points of it make a strict left turn, and \<open>leftOfEdges\<close> holds of a
  walk and a point when the point is on or to the left of every edge of the walk. A
  point is in the polygon \<open>h\<close>, boundary included, when it is on or to the left of every
  edge of the closed walk \<open>h @ take 1 h\<close> and lies between two vertices in the
  lexicographic order; the second condition matters only for a polygon of two vertices,
  which is a segment.
\<close>

definition crossExact :: "point \<Rightarrow> point \<Rightarrow> point \<Rightarrow> real" where
  "crossExact O' A B = (fst A - fst O') * (snd B - snd O') - (snd A - snd O') * (fst B - fst O')"

fun leftTurns :: "point list \<Rightarrow> bool" where
  "leftTurns (a # b # c # r) \<longleftrightarrow> 0 < crossExact a b c \<and> leftTurns (b # c # r)"
| "leftTurns r \<longleftrightarrow> True"

fun leftOfEdges :: "point list \<Rightarrow> point \<Rightarrow> bool" where
  "leftOfEdges (a # b # r) q \<longleftrightarrow> 0 \<le> crossExact a b q \<and> leftOfEdges (b # r) q"
| "leftOfEdges r q \<longleftrightarrow> True"

definition inHull :: "point list \<Rightarrow> point \<Rightarrow> bool" where
  "inHull h q \<longleftrightarrow> leftOfEdges (h @ take 1 h) q \<and> list_ex (\<lambda>a. a \<le> q) h \<and> list_ex (\<lambda>b. q \<le> b) h"

text \<open>
  The scan of \<open>convexHull\<close> seen from the end of the array: \<open>popc\<close> is the \<open>while\<close> loop and
  \<open>pushc\<close> one round of the \<open>for\<close> loop on the array held in reverse, its last element
  first. \<open>rturns\<close> and \<open>rleft\<close> are \<open>leftTurns\<close> and \<open>leftOfEdges\<close> of such a reversed array, and
  \<open>chainInv st xs\<close> is what holds of the reversed array \<open>st\<close> after the points \<open>xs\<close>, in
  increasing order, have gone through the loop. \<open>neg\<close> is the point reflection that
  turns the decreasing pass for \<open>upper\<close> into an increasing one.
\<close>

fun popc :: "point list \<Rightarrow> point \<Rightarrow> point list" where
  "popc (b # a # r) p = (if crossExact a b p \<le> 0 then popc (a # r) p else b # a # r)"
| "popc st p = st"

definition pushc :: "point list \<Rightarrow> point \<Rightarrow> point list" where
  "pushc st p = p # popc st p"

fun rturns :: "point list \<Rightarrow> bool" where
  "rturns (c # b # a # r) \<longleftrightarrow> 0 < crossExact a b c \<and> rturns (b # a # r)"
| "rturns r \<longleftrightarrow> True"

fun rleft :: "point list \<Rightarrow> point \<Rightarrow> bool" where
  "rleft (b # a # r) q \<longleftrightarrow> 0 \<le> crossExact a b q \<and> rleft (a # r) q"
| "rleft r q \<longleftrightarrow> True"

definition chainInv :: "point list \<Rightarrow> point list \<Rightarrow> bool" where
  "chainInv st xs \<longleftrightarrow>
     st \<noteq> [] \<and> hd st = last xs \<and> last st = hd xs \<and> set st \<subseteq> set xs
     \<and> sorted_wrt (\<lambda>a b. b < a) st \<and> rturns st \<and> (\<forall>q\<in>set xs. rleft st q)"

definition neg :: "point \<Rightarrow> point" where
  "neg p = (- fst p, - snd p)"


text \<open>
  \<open>exactTests ps\<close>: on every three points of \<open>ps\<close>, the test \<open>cross \<le> 0\<close> of the scan gives
  what \<open>crossExact \<le> 0\<close> gives. A point whose coordinates are integers below \<open>2 ^ 25\<close> in
  magnitude is a \<open>smallPoint\<close>; on such points no operation of \<open>cross\<close> rounds.
\<close>

definition smallInt :: "real \<Rightarrow> bool" where
  "smallInt c \<longleftrightarrow> of_int \<lfloor>c\<rfloor> = c \<and> \<bar>c\<bar> < 2 ^ 25"

definition smallPoint :: "point \<Rightarrow> bool" where
  "smallPoint p \<longleftrightarrow> smallInt (fst p) \<and> smallInt (snd p)"

definition exactTests :: "point list \<Rightarrow> bool" where
  "exactTests ps \<longleftrightarrow>
     list_all (\<lambda>a. list_all (\<lambda>b. list_all (\<lambda>c.
       (cross a b c \<le> 0) = (crossExact a b c \<le> 0)) ps) ps) ps"

section \<open>Properties of terrain.js\<close>

lemma hypot_zero_right: "hypot a 0 = \<bar>a\<bar>"
  by (simp add: hypot_def)

lemma hypot_nonneg: "0 \<le> hypot a b"
  by (simp add: hypot_def)

subsection \<open>Determinism of the builder\<close>

text \<open>
  C1. For every integer seed, two calls of \<open>buildTrueRollGrids\<close> with that seed give the
  same three grids, cell for cell, whatever the terrain state before each call and
  whatever \<open>Math.random\<close> would have returned.
\<close>

theorem buildTrueRollGrids_deterministic:
  "TRUE_ROLL_AX (buildTrueRollGrids (Some seed) random1 T1)
     = TRUE_ROLL_AX (buildTrueRollGrids (Some seed) random2 T2)
   \<and> TRUE_ROLL_AY (buildTrueRollGrids (Some seed) random1 T1)
     = TRUE_ROLL_AY (buildTrueRollGrids (Some seed) random2 T2)
   \<and> HEIGHT_GRID (buildTrueRollGrids (Some seed) random1 T1)
     = HEIGHT_GRID (buildTrueRollGrids (Some seed) random2 T2)"
  by (simp add: buildTrueRollGrids_def makeRng_def Let_def split: prod.splits)

subsection \<open>The speed factor of the true roll\<close>

lemma trueRollScale_cases:
  "trueRollScale speed =
     (if speed \<le> 4 / 5 then 2 else if speed < 1 then 2 - (speed - 4 / 5) * (5 / 6) else 1 / 10)"
  by (simp add: trueRollScale_def TR_MIN_SPEED_def)

text \<open>
  C3, as stated, fails. A factor that went linearly from 2 at speed 0.8 down to 0.1 at
  speed 1 would be 1.05 at speed 0.9; the code gives 23/12 there. The factor is not
  continuous at speed 1: below 1 it stays above 11/6, at 1 it is 1/10.
\<close>

theorem trueRollScale_counterexample:
  "trueRollScale (9 / 10) \<noteq> 2 + (9 / 10 - 8 / 10) * ((1 / 10 - 2) / (1 - 8 / 10))
   \<and> \<not> isCont trueRollScale 1"
proof
  show "trueRollScale (9 / 10) \<noteq> 2 + (9 / 10 - 8 / 10) * ((1 / 10 - 2) / (1 - 8 / 10))"
    by (simp add: trueRollScale_def TR_MIN_SPEED_def)
  show "\<not> isCont trueRollScale 1"
  proof
    assume "isCont trueRollScale 1"
    then have "\<forall>e>0. \<exists>d>0. \<forall>x. x \<noteq> 1 \<and> \<bar>x - 1\<bar> < d
                 \<longrightarrow> \<bar>trueRollScale x - trueRollScale 1\<bar> < e"
      by (simp add: isCont_def LIM_eq)
    then obtain d where d: "0 < d"
        "\<forall>x. x \<noteq> 1 \<and> \<bar>x - 1\<bar> < d \<longrightarrow> \<bar>trueRollScale x - trueRollScale 1\<bar> < 1"
      by (metis zero_less_one)
    define x where "x = max (9 / 10) (1 - d / 2)"
    have x: "4 / 5 < x" "x < 1" "\<bar>x - 1\<bar> < d"
      using d(1) by (auto simp: x_def max_def)
    have "trueRollScale x > 11 / 6"
      using x(1,2) by (simp add: trueRollScale_cases)
    moreover have "trueRollScale 1 = 1 / 10"
      by (simp add: trueRollScale_def)
    moreover have "\<bar>trueRollScale x - trueRollScale 1\<bar> < 1"
      using d(2) x(2,3) by simp
    ultimately show False by linarith
  qed
qed

text \<open>
  C3, amended. With the terrain built and a positive multiplier, \<open>trueRollAccel\<close>
  multiplies both samples by the multiplier and by a factor of the horizontal speed that
  is 2 up to speed 0.8, \<open>2 - (speed - 0.8) / 1.2\<close> between 0.8 and 1, where it stays
  between 11/6 and 2, and 0.1 from speed 1 on.
\<close>

theorem trueRollAccel_scale:
  assumes "TRUE_ROLL_AX T = Some gx" and "TRUE_ROLL_AY T = Some gy"
    and "0 < TRUE_ROLL_STRENGTH T"
  shows "trueRollAccel T x z velx velz =
           (bilinearSample gx x z TR_WORLD_SIZE
              * (trueRollScale (hypot velx velz) * TRUE_ROLL_STRENGTH T),
            bilinearSample gy x z TR_WORLD_SIZE
              * (trueRollScale (hypot velx velz) * TRUE_ROLL_STRENGTH T))
         \<and> trueRollScale (hypot velx velz) =
             (if hypot velx velz \<le> 4 / 5 then 2
              else if hypot velx velz < 1 then 2 - (hypot velx velz - 4 / 5) * (5 / 6)
              else 1 / 10)
         \<and> (4 / 5 < hypot velx velz \<and> hypot velx velz < 1 \<longrightarrow>
              11 / 6 < trueRollScale (hypot velx velz) \<and> trueRollScale (hypot velx velz) < 2)"
  using assms by (simp add: trueRollAccel_def Let_def trueRollScale_cases)

theorem trueRollAccel_scale_witness:
  "trueRollAccel \<lparr>TRUE_ROLL_AX = Some [[1]], TRUE_ROLL_AY = Some [[1]], HEIGHT_GRID = None,
                   TRUE_ROLL_STRENGTH = 1\<rparr> 0 0 (9 / 10) 0 =
     (bilinearSample [[1]] 0 0 TR_WORLD_SIZE * (23 / 12),
      bilinearSample [[1]] 0 0 TR_WORLD_SIZE * (23 / 12))
   \<and> 4 / 5 < hypot (9 / 10) 0 \<and> hypot (9 / 10) 0 < 1
   \<and> 11 / 6 < trueRollScale (hypot (9 / 10) 0) \<and> trueRollScale (hypot (9 / 10) 0) < 2"
  using trueRollAccel_scale [of "\<lparr>TRUE_ROLL_AX = Some [[1]], TRUE_ROLL_AY = Some [[1]],
      HEIGHT_GRID = None, TRUE_ROLL_STRENGTH = 1\<rparr>" "[[1]]" "[[1]]" 0 0 "9 / 10" 0]
  by (simp add: hypot_zero_right)

subsection \<open>Shape and bounds of the grids\<close>

lemma makeNoiseRow_length: "length (fst (makeNoiseRow n a r)) = n"
  by (induction n arbitrary: r) (simp_all add: Let_def case_prod_beta)

lemma makeNoiseRows_square:
  "length (fst (makeNoiseRows n sz a r)) = n
   \<and> list_all (\<lambda>row. length row = sz) (fst (makeNoiseRows n sz a r))"
proof (induction n arbitrary: r)
  case 0
  show ?case by simp
next
  case (Suc n)
  obtain row r1 where row: "makeNoiseRow sz a r = (row, r1)" by (cases "makeNoiseRow sz a r")
  have "length row = sz" using makeNoiseRow_length [of sz a r] row by simp
  then show ?case using Suc [of r1] row by (simp add: Let_def case_prod_beta)
qed

lemma makeNoiseGrid_square: "squareGrid sz (fst (makeNoiseGrid sz a r))"
  using makeNoiseRows_square [of sz sz a r] by (simp add: squareGrid_def makeNoiseGrid_def)

lemma smoothPass_square: "squareGrid sz (smoothPass sz g)"
  by (simp add: squareGrid_def smoothPass_def list_all_iff)

lemma smoothLoop_square: "squareGrid sz g \<Longrightarrow> squareGrid sz (smoothLoop p sz g)"
  by (induction p arbitrary: g) (simp_all add: smoothPass_square)

lemma smoothGrid_square: "squareGrid sz g \<Longrightarrow> squareGrid sz (smoothGrid g p)"
  using smoothLoop_square [of sz g p] by (simp add: smoothGrid_def squareGrid_def)

lemma normalizeGrid_square: "squareGrid sz g \<Longrightarrow> squareGrid sz (normalizeGrid g t)"
  by (simp add: normalizeGrid_def squareGrid_def Let_def list_all_iff)

lemma foldl_max_abs_ge: "m \<le> foldl (\<lambda>m v. max m \<bar>v\<bar>) m (row :: real list)"
proof (induction row arbitrary: m)
  case Nil
  show ?case by simp
next
  case (Cons w row)
  have "m \<le> max m \<bar>w\<bar>" by simp
  also have "\<dots> \<le> foldl (\<lambda>m v. max m \<bar>v\<bar>) (max m \<bar>w\<bar>) row" by (rule Cons)
  finally show ?case by simp
qed

lemma foldl_max_abs_mem:
  "v \<in> set row \<Longrightarrow> \<bar>v\<bar> \<le> foldl (\<lambda>m v. max m \<bar>v\<bar>) m (row :: real list)"
proof (induction row arbitrary: m)
  case Nil
  then show ?case by simp
next
  case (Cons w row)
  show ?case
  proof (cases "v = w")
    case True
    have "\<bar>w\<bar> \<le> max m \<bar>w\<bar>" by simp
    also have "\<dots> \<le> foldl (\<lambda>m v. max m \<bar>v\<bar>) (max m \<bar>w\<bar>) row" by (rule foldl_max_abs_ge)
    finally show ?thesis using True by simp
  next
    case False
    then show ?thesis using Cons by simp
  qed
qed

lemma foldl_rows_ge:
  "m \<le> foldl (\<lambda>m row. foldl (\<lambda>m v. max m \<bar>v\<bar>) m row) m (g :: grid)"
proof (induction g arbitrary: m)
  case Nil
  show ?case by simp
next
  case (Cons row g)
  have "m \<le> foldl (\<lambda>m v. max m \<bar>v\<bar>) m row" by (rule foldl_max_abs_ge)
  also have "\<dots> \<le> foldl (\<lambda>m row. foldl (\<lambda>m v. max m \<bar>v\<bar>) m row) (foldl (\<lambda>m v. max m \<bar>v\<bar>) m row) g"
    by (rule Cons)
  finally show ?case by simp
qed

lemma foldl_rows_mem:
  "row \<in> set g \<Longrightarrow> v \<in> set row
   \<Longrightarrow> \<bar>v\<bar> \<le> foldl (\<lambda>m row. foldl (\<lambda>m v. max m \<bar>v\<bar>) m row) m (g :: grid)"
proof (induction g arbitrary: m)
  case Nil
  then show ?case by simp
next
  case (Cons r g)
  show ?case
  proof (cases "row = r")
    case True
    have "\<bar>v\<bar> \<le> foldl (\<lambda>m v. max m \<bar>v\<bar>) m r"
      using Cons.prems(2) True by (simp add: foldl_max_abs_mem)
    also have "\<dots> \<le> foldl (\<lambda>m row. foldl (\<lambda>m v. max m \<bar>v\<bar>) m row) (foldl (\<lambda>m v. max m \<bar>v\<bar>) m r) g"
      by (rule foldl_rows_ge)
    finally show ?thesis by simp
  next
    case False
    then show ?thesis using Cons by simp
  qed
qed

lemma gridMaxAbs_nonneg: "0 \<le> gridMaxAbs g"
  unfolding gridMaxAbs_def by (rule foldl_rows_ge)

lemma gridMaxAbs_mem: "row \<in> set g \<Longrightarrow> v \<in> set row \<Longrightarrow> \<bar>v\<bar> \<le> gridMaxAbs g"
  unfolding gridMaxAbs_def by (rule foldl_rows_mem)

lemma normalizeGrid_bounded:
  assumes "1 / 10 ^ 9 \<le> t"
  shows "gridBounded t (normalizeGrid g t)"
proof (cases "gridMaxAbs g < 1 / 10 ^ 9")
  case True
  have "\<bar>v\<bar> \<le> t" if "row \<in> set g" "v \<in> set row" for row v
    using gridMaxAbs_mem [OF that] True assms by linarith
  then show ?thesis using True
    by (simp add: normalizeGrid_def gridBounded_def list_all_iff)
next
  case False
  have small: "(0::real) < 1 / 10 ^ 9" by simp
  have pos: "0 < gridMaxAbs g" using False small by linarith
  have t0: "0 \<le> t" using assms small by linarith
  have "\<bar>v * (t / gridMaxAbs g)\<bar> \<le> t" if "row \<in> set g" "v \<in> set row" for row v
  proof -
    have "\<bar>v\<bar> \<le> gridMaxAbs g" by (rule gridMaxAbs_mem [OF that])
    then have "\<bar>v\<bar> / gridMaxAbs g \<le> 1" using pos by simp
    then have "\<bar>v\<bar> / gridMaxAbs g * t \<le> 1 * t" using t0 by (rule mult_right_mono)
    moreover have "\<bar>v * (t / gridMaxAbs g)\<bar> = \<bar>v\<bar> / gridMaxAbs g * t"
      using pos t0 by (simp add: abs_mult)
    ultimately show ?thesis by simp
  qed
  then show ?thesis using False
    by (simp add: normalizeGrid_def gridBounded_def list_all_iff Let_def)
qed


lemma convex_abs_bound:
  fixes a b t B :: real
  assumes "\<bar>a\<bar> \<le> B" "\<bar>b\<bar> \<le> B" "0 \<le> t" "t \<le> 1"
  shows "\<bar>a * (1 - t) + b * t\<bar> \<le> B"
proof -
  have "\<bar>a * (1 - t) + b * t\<bar> \<le> \<bar>a * (1 - t)\<bar> + \<bar>b * t\<bar>" by (rule abs_triangle_ineq)
  also have "\<dots> = \<bar>a\<bar> * (1 - t) + \<bar>b\<bar> * t" using assms(3,4) by (simp add: abs_mult)
  also have "\<dots> \<le> B * (1 - t) + B * t"
    using assms by (intro add_mono mult_right_mono) simp_all
  also have "\<dots> = B" by (simp add: algebra_simps)
  finally show ?thesis .
qed

lemma grid_cell_bounded:
  assumes "squareGrid n g" "gridBounded B g" "0 \<le> i" "i < int n" "0 \<le> j" "j < int n"
  shows "\<bar>g ! nat i ! nat j\<bar> \<le> B"
proof -
  have i: "nat i < length g" using assms by (simp add: squareGrid_def)
  then have row: "g ! nat i \<in> set g" by simp
  then have "length (g ! nat i) = n" using assms(1) by (simp add: squareGrid_def list_all_iff)
  then have "g ! nat i ! nat j \<in> set (g ! nat i)" using assms(5,6) by simp
  then show ?thesis using row assms(2) by (simp add: gridBounded_def list_all_iff)
qed

lemma floor_index_range:
  fixes u :: real and n :: nat
  assumes "0 \<le> u" "u \<le> 1" "0 < n"
  shows "0 \<le> \<lfloor>u * real_of_int (int n - 1)\<rfloor>" and "\<lfloor>u * real_of_int (int n - 1)\<rfloor> < int n"
proof -
  have n1: "(0::real) \<le> real_of_int (int n - 1)" using assms(3) by simp
  have "0 \<le> u * real_of_int (int n - 1)" using assms(1) n1 by simp
  then show "0 \<le> \<lfloor>u * real_of_int (int n - 1)\<rfloor>" by simp
  have "u * real_of_int (int n - 1) \<le> 1 * real_of_int (int n - 1)"
    using assms(2) n1 by (rule mult_right_mono)
  then have "u * real_of_int (int n - 1) < real_of_int (int n)" by simp
  then show "\<lfloor>u * real_of_int (int n - 1)\<rfloor> < int n" by (simp add: floor_less_iff)
qed

lemma bilinearSample_bounded:
  assumes sq: "squareGrid n g" and n: "0 < n" and b: "gridBounded B g"
  shows "\<bar>bilinearSample g x z w\<bar> \<le> B"
proof -
  define u where "u = min (max ((x + w / 2) / w) 0) 1"
  define v where "v = min (max ((z + w / 2) / w) 0) 1"
  define fx where "fx = u * real_of_int (int n - 1)"
  define fy where "fy = v * real_of_int (int n - 1)"
  define x0 where "x0 = \<lfloor>fx\<rfloor>"
  define y0 where "y0 = \<lfloor>fy\<rfloor>"
  define x1 where "x1 = min (x0 + 1) (int n - 1)"
  define y1 where "y1 = min (y0 + 1) (int n - 1)"
  define tx where "tx = fx - real_of_int x0"
  define ty where "ty = fy - real_of_int y0"
  have len: "length g = n" using sq by (simp add: squareGrid_def)
  have u: "0 \<le> u" "u \<le> 1" and v: "0 \<le> v" "v \<le> 1" by (simp_all add: u_def v_def)
  have x0: "0 \<le> x0" "x0 < int n"
    using floor_index_range [OF u n] by (simp_all add: x0_def fx_def)
  have y0: "0 \<le> y0" "y0 < int n"
    using floor_index_range [OF v n] by (simp_all add: y0_def fy_def)
  have x1: "0 \<le> x1" "x1 < int n" using x0 n by (simp_all add: x1_def)
  have y1: "0 \<le> y1" "y1 < int n" using y0 n by (simp_all add: y1_def)
  have tx: "0 \<le> tx" "tx \<le> 1" unfolding tx_def x0_def by linarith+
  have ty: "0 \<le> ty" "ty \<le> 1" unfolding ty_def y0_def by linarith+
  have c00: "\<bar>g ! nat y0 ! nat x0\<bar> \<le> B" by (rule grid_cell_bounded [OF sq b y0 x0])
  have c10: "\<bar>g ! nat y0 ! nat x1\<bar> \<le> B" by (rule grid_cell_bounded [OF sq b y0 x1])
  have c01: "\<bar>g ! nat y1 ! nat x0\<bar> \<le> B" by (rule grid_cell_bounded [OF sq b y1 x0])
  have c11: "\<bar>g ! nat y1 ! nat x1\<bar> \<le> B" by (rule grid_cell_bounded [OF sq b y1 x1])
  have top: "\<bar>g ! nat y0 ! nat x0 * (1 - tx) + g ! nat y0 ! nat x1 * tx\<bar> \<le> B"
    by (rule convex_abs_bound [OF c00 c10 tx])
  have bot: "\<bar>g ! nat y1 ! nat x0 * (1 - tx) + g ! nat y1 ! nat x1 * tx\<bar> \<le> B"
    by (rule convex_abs_bound [OF c01 c11 tx])
  have "bilinearSample g x z w =
          (g ! nat y0 ! nat x0 * (1 - tx) + g ! nat y0 ! nat x1 * tx) * (1 - ty)
          + (g ! nat y1 ! nat x0 * (1 - tx) + g ! nat y1 ! nat x1 * tx) * ty"
    by (simp add: bilinearSample_def Let_def len u_def v_def fx_def fy_def x0_def y0_def
        x1_def y1_def tx_def ty_def)
  then show ?thesis using convex_abs_bound [OF top bot ty] by simp
qed



lemma buildTrueRollGrids_height_square:
  "\<exists>h. HEIGHT_GRID (buildTrueRollGrids seed random T) = Some h
       \<and> squareGrid TR_GRID_SIZE h \<and> gridBounded TR_TARGET_AMP h"
proof -
  have t: "(1::real) / 10 ^ 9 \<le> TR_TARGET_AMP" by (simp add: TR_TARGET_AMP_def)
  show ?thesis
    by (simp add: buildTrueRollGrids_def Let_def case_prod_beta normalizeGrid_bounded [OF t]
        normalizeGrid_square smoothGrid_square makeNoiseGrid_square)
qed


subsection \<open>What the parts of a physics step leave unchanged\<close>

lemma addTrailPoint_frame [simp]:
  "terrainState (addTrailPoint x y z g) = terrainState g"
  "angleDeg (addTrailPoint x y z g) = angleDeg g"
  "stimpM (addTrailPoint x y z g) = stimpM g"
  "ballPos (addTrailPoint x y z g) = ballPos g"
  "ballVel (addTrailPoint x y z g) = ballVel g"
  "ballSpin (addTrailPoint x y z g) = ballSpin g"
  "ballMoving (addTrailPoint x y z g) = ballMoving g"
  "ballAirborne (addTrailPoint x y z g) = ballAirborne g"
  "ballOnCircle (addTrailPoint x y z g) = ballOnCircle g"
  "inHole (addTrailPoint x y z g) = inHole g"
  "bounceCount (addTrailPoint x y z g) = bounceCount g"
  "travelDist (addTrailPoint x y z g) = travelDist g"
  "breakLocked (addTrailPoint x y z g) = breakLocked g"
  "aimPtGroup (addTrailPoint x y z g) = aimPtGroup g"
  "ghostGroup (addTrailPoint x y z g) = ghostGroup g"
  by (simp_all add: addTrailPoint_def Let_def)

lemma colorLastAimPoint_frame [simp]:
  "terrainState (colorLastAimPoint m g) = terrainState g"
  "angleDeg (colorLastAimPoint m g) = angleDeg g"
  "stimpM (colorLastAimPoint m g) = stimpM g"
  "ballPos (colorLastAimPoint m g) = ballPos g"
  "ballVel (colorLastAimPoint m g) = ballVel g"
  "ballSpin (colorLastAimPoint m g) = ballSpin g"
  "ballMoving (colorLastAimPoint m g) = ballMoving g"
  "ballAirborne (colorLastAimPoint m g) = ballAirborne g"
  "ballOnCircle (colorLastAimPoint m g) = ballOnCircle g"
  "inHole (colorLastAimPoint m g) = inHole g"
  "bounceCount (colorLastAimPoint m g) = bounceCount g"
  "travelDist (colorLastAimPoint m g) = travelDist g"
  "breakLocked (colorLastAimPoint m g) = breakLocked g"
  "ghostGroup (colorLastAimPoint m g) = ghostGroup g"
  by (simp_all add: colorLastAimPoint_def Let_def case_prod_beta)

lemma breakDetect_frame [simp]:
  "terrainState (breakDetect g) = terrainState g"
  "angleDeg (breakDetect g) = angleDeg g"
  "stimpM (breakDetect g) = stimpM g"
  "ballPos (breakDetect g) = ballPos g"
  "ballVel (breakDetect g) = ballVel g"
  "ballSpin (breakDetect g) = ballSpin g"
  "ballMoving (breakDetect g) = ballMoving g"
  "ballAirborne (breakDetect g) = ballAirborne g"
  "ballOnCircle (breakDetect g) = ballOnCircle g"
  "inHole (breakDetect g) = inHole g"
  "bounceCount (breakDetect g) = bounceCount g"
  "travelDist (breakDetect g) = travelDist g"
  "ghostGroup (breakDetect g) = ghostGroup g"
  by (simp_all add: breakDetect_def Let_def case_prod_beta split: option.splits)

lemma holeCapture_terrain [simp]:
  "terrainState (holeCapture cd g) = terrainState g"
  "angleDeg (holeCapture cd g) = angleDeg g"
  "stimpM (holeCapture cd g) = stimpM g"
  by (simp_all add: holeCapture_def Let_def case_prod_beta placeGhostCross_def)

lemma integrateStep_terrain [simp]:
  "terrainState (fst (integrateStep dt g)) = terrainState g"
  "angleDeg (fst (integrateStep dt g)) = angleDeg g"
  "stimpM (fst (integrateStep dt g)) = stimpM g"
  "ballMoving (fst (integrateStep dt g)) = ballMoving g"
  "inHole (fst (integrateStep dt g)) = inHole g"
  by (simp_all add: integrateStep_def Let_def case_prod_beta)

lemma updatePhysics_terrain: "terrainState (updatePhysics dt g) = terrainState g"
  by (simp add: updatePhysics_def case_prod_beta)


subsection \<open>Bound on the terrain height\<close>

text \<open>
  C10. In double precision \<open>normalizeGrid\<close> misses the target amplitude by one unit in
  the last place: the scale \<open>targetAmp / maxAbs\<close> is rounded, and the product of the cell of
  largest magnitude with it is rounded again. For the grid of the one cell \<open>0.171875\<close> and
  the target \<open>0.1\<close> the result is \<open>0.10000000000000002\<close>, above the double \<open>0.1\<close> and above one
  tenth; multiplied by \<open>HEIGHT_SCALE = 0.01\<close>, as \<open>getTerrainHeight\<close> does with a sample that
  is this cell, it gives \<open>0.0010000000000000002\<close>, above the double \<open>0.001\<close> and above one
  thousandth. The code meets this with seed 7: the cell in row 49 and column 36 of the
  height grid is \<open>-0.10000000000000002\<close>.
\<close>

theorem normalizeGridD_exceeds:
  "normalizeGridD [[11 / 64]] (fl (1 / 10)) = [[7205759403792795 / 72057594037927936]]
   \<and> fl (1 / 10) = 7205759403792794 / 72057594037927936
   \<and> fl (7205759403792795 / 72057594037927936 * fl (1 / 100))
       = 4611686018427389 / 4611686018427387904
   \<and> fl (1 / 1000) = 4611686018427388 / 4611686018427387904
   \<and> (1 / 1000 :: real) < 4611686018427389 / 4611686018427387904"
  by (simp add: normalizeGridD_def gridMaxAbs_def fl_def flAbs_def flUp.simps flDown.simps
      roundHalfEven_def Let_def)

text \<open>
  In exact arithmetic the bound holds. After \<open>buildTrueRollGrids\<close>, with or without a seed,
  the terrain height at every \<open>(x, z)\<close> is at most \<open>TR_TARGET_AMP * HEIGHT_SCALE = 0.001\<close> in
  absolute value when no operation rounds. The other operations do not touch the height
  grid: \<open>setTrueRollStrength\<close> leaves every height as it is, \<open>shoot\<close> and \<open>updatePhysics\<close> leave
  the terrain as it is.
\<close>

theorem getTerrainHeight_bounded:
  "\<bar>getTerrainHeight (buildTrueRollGrids seed random T) x z\<bar> \<le> TR_TARGET_AMP * HEIGHT_SCALE
   \<and> TR_TARGET_AMP * HEIGHT_SCALE = 1 / 1000
   \<and> getTerrainHeight (setTrueRollStrength s T') x z = getTerrainHeight T' x z
   \<and> terrainState (shoot g) = terrainState g
   \<and> terrainState (updatePhysics dt g) = terrainState g"
proof (intro conjI)
  obtain h where h: "HEIGHT_GRID (buildTrueRollGrids seed random T) = Some h"
      "squareGrid TR_GRID_SIZE h" "gridBounded TR_TARGET_AMP h"
    using buildTrueRollGrids_height_square by blast
  have "\<bar>bilinearSample h x z TR_WORLD_SIZE\<bar> \<le> TR_TARGET_AMP"
    by (rule bilinearSample_bounded [OF h(2) _ h(3)]) (simp add: TR_GRID_SIZE_def)
  then have "\<bar>bilinearSample h x z TR_WORLD_SIZE\<bar> * HEIGHT_SCALE \<le> TR_TARGET_AMP * HEIGHT_SCALE"
    by (rule mult_right_mono) (simp add: HEIGHT_SCALE_def)
  then show "\<bar>getTerrainHeight (buildTrueRollGrids seed random T) x z\<bar>
               \<le> TR_TARGET_AMP * HEIGHT_SCALE"
    using h(1) by (simp add: getTerrainHeight_def abs_mult HEIGHT_SCALE_def)
  show "TR_TARGET_AMP * HEIGHT_SCALE = 1 / 1000"
    by (simp add: TR_TARGET_AMP_def HEIGHT_SCALE_def)
  show "getTerrainHeight (setTrueRollStrength s T') x z = getTerrainHeight T' x z"
    by (simp add: getTerrainHeight_def setTrueRollStrength_def)
  show "terrainState (shoot g) = terrainState g"
    by (simp add: shoot_def Let_def case_prod_beta addTrailPoint_def addAimPointMarker_def)
  show "terrainState (updatePhysics dt g) = terrainState g"
    by (rule updatePhysics_terrain)
qed

subsection \<open>The flat terrain\<close>

lemma makeNoiseRow_half:
  "makeNoiseRow n a (Unseeded (\<lambda>i. 1 / 2)) = (replicate n 0, Unseeded (\<lambda>i. 1 / 2))"
  by (induction n) (simp_all add: uniform_def)

lemma makeNoiseRows_half:
  "makeNoiseRows n sz a (Unseeded (\<lambda>i. 1 / 2))
     = (replicate n (replicate sz 0), Unseeded (\<lambda>i. 1 / 2))"
  by (induction n) (simp_all add: makeNoiseRow_half)

lemma smoothCell_fold_zero:
  assumes "\<forall>yy xx. 0 \<le> yy \<and> yy < sz \<and> 0 \<le> xx \<and> xx < sz \<longrightarrow> cur ! nat yy ! nat xx = 0"
  shows "fst (foldl (\<lambda>(total, count) (dy, dx).
                 let yy = y + dy; xx = x + dx
                 in if yy \<ge> 0 \<and> yy < sz \<and> xx \<ge> 0 \<and> xx < sz
                    then (total + cur ! nat yy ! nat xx, count + 1)
                    else (total, count)) (0 :: real, c :: nat) ofs) = 0"
proof -
  define F where "F = (\<lambda>(total :: real, count :: nat) (dy, dx).
                 let yy = y + dy; xx = x + dx
                 in if yy \<ge> 0 \<and> yy < sz \<and> xx \<ge> 0 \<and> xx < sz
                    then (total + cur ! nat yy ! nat xx, count + 1)
                    else (total, count))"
  have step: "\<exists>c'. F (0, c) o1 = (0, c')" for c o1
  proof (cases "y + fst o1 \<ge> 0 \<and> y + fst o1 < sz \<and> x + snd o1 \<ge> 0 \<and> x + snd o1 < sz")
    case True
    then have "cur ! nat (y + fst o1) ! nat (x + snd o1) = 0" using assms by blast
    then show ?thesis using True by (simp add: F_def case_prod_beta Let_def)
  next
    case False
    then have "F (0, c) o1 = (0, c)"
      unfolding F_def case_prod_beta Let_def fst_conv snd_conv by (rule if_not_P)
    then show ?thesis by blast
  qed
  have "fst (foldl F (0, c) ofs) = 0"
  proof (induction ofs arbitrary: c)
    case Nil
    show ?case by simp
  next
    case (Cons o1 ofs)
    obtain c' where "F (0, c) o1 = (0, c')" using step by blast
    then show ?case using Cons [of c'] by simp
  qed
  then show ?thesis by (simp only: F_def)
qed

lemma smoothCell_zero:
  assumes "\<forall>yy xx. 0 \<le> yy \<and> yy < sz \<and> 0 \<le> xx \<and> xx < sz \<longrightarrow> cur ! nat yy ! nat xx = 0"
  shows "smoothCell cur sz y x = 0"
  unfolding smoothCell_def Let_def case_prod_beta
    smoothCell_fold_zero [OF assms, unfolded Let_def case_prod_beta]
  by (rule div_0)

lemma zeroGrid_nth:
  "0 \<le> yy \<Longrightarrow> yy < int n \<Longrightarrow> 0 \<le> xx \<Longrightarrow> xx < int n \<Longrightarrow> zeroGrid n ! nat yy ! nat xx = 0"
proof -
  assume a: "0 \<le> yy" "yy < int n" "0 \<le> xx" "xx < int n"
  have "nat yy < n" "nat xx < n" using a by linarith+
  then show ?thesis by (simp add: zeroGrid_def)
qed

lemma smoothPass_zero: "smoothPass n (zeroGrid n) = zeroGrid n"
proof -
  have "smoothCell (zeroGrid n) (int n) y x = 0" for y x
    by (rule smoothCell_zero) (simp add: zeroGrid_nth)
  then show ?thesis
    by (simp add: smoothPass_def zeroGrid_def map_replicate_const)
qed

lemma smoothLoop_zero: "smoothLoop p n (zeroGrid n) = zeroGrid n"
  by (induction p) (simp_all add: smoothPass_zero)

lemma length_zeroGrid: "length (zeroGrid n) = n"
  by (simp add: zeroGrid_def)

lemma smoothGrid_zero: "smoothGrid (zeroGrid n) p = zeroGrid n"
  by (simp add: smoothGrid_def length_zeroGrid smoothLoop_zero)

lemma zeroGrid_bounded: "gridBounded 0 (zeroGrid n)"
  by (simp add: gridBounded_def zeroGrid_def list_all_iff)

lemma zeroGrid_square: "squareGrid n (zeroGrid n)"
  by (simp add: squareGrid_def zeroGrid_def list_all_iff)

lemma foldl_max_abs_le:
  "m \<le> B \<Longrightarrow> list_all (\<lambda>v. \<bar>v\<bar> \<le> B) row \<Longrightarrow> foldl (\<lambda>m v. max m \<bar>v\<bar>) m (row :: real list) \<le> B"
  by (induction row arbitrary: m) simp_all

lemma foldl_rows_le:
  "m \<le> B \<Longrightarrow> list_all (list_all (\<lambda>v. \<bar>v\<bar> \<le> B)) g
   \<Longrightarrow> foldl (\<lambda>m row. foldl (\<lambda>m v. max m \<bar>v\<bar>) m row) m (g :: grid) \<le> B"
  by (induction g arbitrary: m) (simp_all add: foldl_max_abs_le)

lemma gridMaxAbs_le: "0 \<le> B \<Longrightarrow> gridBounded B g \<Longrightarrow> gridMaxAbs g \<le> B"
  unfolding gridMaxAbs_def gridBounded_def by (rule foldl_rows_le)

lemma normalizeGrid_zero: "normalizeGrid (zeroGrid n) t = zeroGrid n"
proof -
  have "gridMaxAbs (zeroGrid n) \<le> 0"
    by (rule gridMaxAbs_le [OF _ zeroGrid_bounded]) simp
  then have "gridMaxAbs (zeroGrid n) < 1 / 10 ^ 9"
    by (rule order_le_less_trans) simp
  then show ?thesis by (simp add: normalizeGrid_def)
qed

lemma makeNoiseGrid_half:
  "makeNoiseGrid n a (Unseeded (\<lambda>i. 1 / 2)) = (zeroGrid n, Unseeded (\<lambda>i. 1 / 2))"
  by (simp only: makeNoiseGrid_def makeNoiseRows_half zeroGrid_def)

lemma flatTerrain_eq:
  "flatTerrain = \<lparr>TRUE_ROLL_AX = Some (zeroGrid TR_GRID_SIZE),
                   TRUE_ROLL_AY = Some (zeroGrid TR_GRID_SIZE),
                   HEIGHT_GRID = Some (zeroGrid TR_GRID_SIZE), TRUE_ROLL_STRENGTH = 1\<rparr>"
  unfolding flatTerrain_def buildTrueRollGrids_def makeRng_def
  by (simp only: option.case makeNoiseGrid_half Let_def prod.case smoothGrid_zero
      normalizeGrid_zero initialTerrain_def) simp

lemma bilinearSample_zero: "0 < n \<Longrightarrow> bilinearSample (zeroGrid n) x z w = 0"
  using bilinearSample_bounded [OF zeroGrid_square _ zeroGrid_bounded, of n x z w] by simp

lemma getTerrainHeight_flat [simp]: "getTerrainHeight flatTerrain x z = 0"
  by (simp add: getTerrainHeight_def flatTerrain_eq bilinearSample_zero TR_GRID_SIZE_def)

lemma getTerrainNormal_flat [simp]: "getTerrainNormal flatTerrain x z = (0, 1, 0)"
  by (simp add: getTerrainNormal_def)

lemma trueRollAccel_flat [simp]: "trueRollAccel flatTerrain x z velx velz = (0, 0)"
  by (simp add: trueRollAccel_def flatTerrain_eq bilinearSample_zero TR_GRID_SIZE_def)

section \<open>Properties of main.js\<close>

subsection \<open>The shot with a zero-length aim vector\<close>

text \<open>
  C9. When the aim point has the x and z of the ball, \<open>shoot\<close> returns the state it was
  given: position, velocity, spin, flags, bounce count, travel distance and every other
  variable keep their values.
\<close>

theorem shoot_zero_aim:
  assumes "fst (aimWorld g) = fst (ballPos g)"
    and "snd (snd (aimWorld g)) = snd (snd (ballPos g))"
  shows "shoot g = g"
  using assms by (simp add: shoot_def case_prod_beta Let_def hypot_def)

theorem shoot_zero_aim_witness:
  "shoot (initialGame flatTerrain) = initialGame flatTerrain"
  using shoot_zero_aim [of "initialGame flatTerrain"] by (simp add: initialGame_def)

subsection \<open>The ghost rest simulation\<close>

lemma ghostLoop_steps: "fst (ghostLoop T a m step s) \<le> 20000 - step"
proof (induction T a m step s rule: ghostLoop.induct)
  case (1 T a m step s)
  show ?case
  proof (cases "step < 20000")
    case False
    then show ?thesis by (simp add: ghostLoop.simps [of T a m step s])
  next
    case True
    note lt = this
    show ?thesis
    proof (cases "hypot (g_vx s) (g_vz s) < 2 / 100 \<and> \<not> g_airborne s")
      case True
      then show ?thesis using lt by (simp add: ghostLoop.simps [of T a m step s])
    next
      case False
      note run = this
      define s' where "s' = ghostStep T a m s"
      show ?thesis
      proof (cases "\<bar>g_px s'\<bar> > GREEN_SIZE / 2 \<or> \<bar>g_pz s'\<bar> > GREEN_SIZE / 2")
        case True
        then show ?thesis using lt run
          by (simp add: ghostLoop.simps [of T a m step s] s'_def Let_def)
      next
        case False
        have "fst (ghostLoop T a m (step + 1) s') \<le> 20000 - (step + 1)"
          unfolding s'_def by (rule "1.IH" [OF lt refl run refl refl False [unfolded s'_def]])
        then show ?thesis using lt run False
          by (simp add: ghostLoop.simps [of T a m step s] s'_def [symmetric] Let_def case_prod_beta)
      qed
    qed
  qed
qed

text \<open>
  C8. Called with zero start velocity, \<open>simulateGhostRest\<close> returns the start \<open>(x, z)\<close>
  for every start position, spin, terrain, slope and stimp, and the loop body does not run
  once: the local \<open>airborne\<close> starts false and the speed is 0, so the stop test fires in
  the first iteration. For every start state the loop body runs at most 20000 times.
\<close>

theorem simulateGhostRest_at_rest:
  "simulateGhostRest T a m (px, py, pz) (0, 0, 0) spin = (px, pz)
   \<and> fst (ghostLoop T a m 0 (ghostStart (px, py, pz) (0, 0, 0) spin)) = 0
   \<and> fst (ghostLoop T a m 0 (ghostStart startPos startVel startSpin)) \<le> 20000"
proof (intro conjI)
  have loop: "ghostLoop T a m 0 (ghostStart (px, py, pz) (0, 0, 0) spin)
                = (0, ghostStart (px, py, pz) (0, 0, 0) spin)"
    by (simp add: ghostLoop.simps [of T a m 0] ghostStart_def hypot_def)
  show "simulateGhostRest T a m (px, py, pz) (0, 0, 0) spin = (px, pz)"
    by (simp add: simulateGhostRest_def loop) (simp add: ghostStart_def)
  show "fst (ghostLoop T a m 0 (ghostStart (px, py, pz) (0, 0, 0) spin)) = 0"
    by (simp add: loop)
  show "fst (ghostLoop T a m 0 (ghostStart startPos startVel startSpin)) \<le> 20000"
    using ghostLoop_steps [of T a m 0] by simp
qed

subsection \<open>The stop and the hole capture\<close>

lemmas kdefs = BALL_RADIUS_M_def HOLE_RADIUS_M_def GRAVITY_def ROLLING_FACTOR_def
  BOUNCE_DAMPING_def BOUNCE_FRICTION_def MIN_BOUNCE_VEL_def LANDING_THRESHOLD_def
  STIMP_DEFAULT_def SPIN_EFFECT_STRENGTH_def SPIN_DECAY_RATE_def stimpToMu_def
  LAUNCH_ANGLE_DEFAULT_def MAX_GHOST_DIST_def

lemma updatePhysics_idle: "\<not> ballMoving g \<Longrightarrow> updatePhysics dt g = g"
  by (simp add: updatePhysics_def)

lemma updatePhysics_idle_foldl:
  "\<not> ballMoving g \<Longrightarrow> foldl (\<lambda>s d. updatePhysics d s) g dts = g"
  by (induction dts) (simp_all add: updatePhysics_idle)

lemma breakDetect_idle: "\<not> ballMoving g \<Longrightarrow> breakDetect g = g"
  by (simp add: breakDetect_def)

lemma holeCapture_stop:
  assumes "\<not> (ballDroppedIn g \<or> distToHole g \<le> HOLE_RADIUS_M \<or> crossedHole cd g)"
    and "speedXz g < 2 / 100" and "\<not> ballAirborne g"
  shows "holeCapture cd g = colorLastAimPoint False (g\<lparr>ballMoving := False, ballVel := (0, 0, 0)\<rparr>)"
  using assms by (simp add: holeCapture_def Let_def case_prod_beta)

text \<open>
  C4. Let the ball be moving, and let the state after the integration part of the step
  have the ball on the ground with horizontal speed below 0.02, none of the three hole
  tests holding. Then the step clears the moving flag and sets the velocity to
  \<open>(0, 0, 0)\<close>; \<open>inHole\<close> keeps its value and the position is the integrated one. Any
  number of further steps, with any time steps, return this same state; and in general
  a step from a state that is not moving returns the state unchanged.
\<close>

theorem updatePhysics_stop:
  assumes "ballMoving g"
    and "speedXz (fst (integrateStep dt g)) < 2 / 100"
    and "\<not> ballAirborne (fst (integrateStep dt g))"
    and "\<not> (ballDroppedIn (fst (integrateStep dt g))
            \<or> distToHole (fst (integrateStep dt g)) \<le> HOLE_RADIUS_M
            \<or> crossedHole (snd (integrateStep dt g)) (fst (integrateStep dt g)))"
  shows "\<not> ballMoving (updatePhysics dt g)
         \<and> ballVel (updatePhysics dt g) = (0, 0, 0)
         \<and> inHole (updatePhysics dt g) = inHole g
         \<and> ballPos (updatePhysics dt g) = ballPos (fst (integrateStep dt g))
         \<and> foldl (\<lambda>s d. updatePhysics d s) (updatePhysics dt g) dts = updatePhysics dt g
         \<and> (\<not> ballMoving s \<longrightarrow> updatePhysics d s = s)"
proof -
  define g1 where "g1 = fst (integrateStep dt g)"
  define cd where "cd = snd (integrateStep dt g)"
  define g2 where "g2 = colorLastAimPoint False (g1\<lparr>ballMoving := False, ballVel := (0, 0, 0)\<rparr>)"
  have hc: "holeCapture cd g1 = g2"
    unfolding g2_def using assms(2-4) by (intro holeCapture_stop) (simp_all add: g1_def cd_def)
  have idle: "\<not> ballMoving g2" by (simp add: g2_def)
  have up: "updatePhysics dt g = g2"
    using assms(1) by (simp add: updatePhysics_def case_prod_beta g1_def [symmetric]
        cd_def [symmetric] hc breakDetect_idle [OF idle])
  show ?thesis
    unfolding up using idle
    by (simp add: updatePhysics_idle_foldl updatePhysics_idle) (simp add: g2_def g1_def)
qed

theorem updatePhysics_stop_witness:
  "\<not> ballMoving (updatePhysics (1 / 60) (rollingGame 1 (1 / 40)))
   \<and> ballVel (updatePhysics (1 / 60) (rollingGame 1 (1 / 40))) = (0, 0, 0)
   \<and> ballPos (updatePhysics (1 / 60) (rollingGame 1 (1 / 40))) = (8002093 / 8000000, 43 / 2000, 0)
   \<and> foldl (\<lambda>s d. updatePhysics d s) (updatePhysics (1 / 60) (rollingGame 1 (1 / 40)))
        [1 / 60, 1 / 30] = updatePhysics (1 / 60) (rollingGame 1 (1 / 40))
   \<and> updatePhysics (1 / 60) (initialGame flatTerrain) = initialGame flatTerrain"
proof -
  have step: "integrateStep (1 / 60) (rollingGame 1 (1 / 40)) =
      ((rollingGame 1 (1 / 40))\<lparr>ballPos := (8002093 / 8000000, 43 / 2000, 0),
          ballVel := (6279 / 400000, 0, 0), travelDist := 2093 / 8000000,
          maxHeight := 43 / 2000\<rparr>, 1)"
    by (simp add: integrateStep_def floorLevel_def floorCheck_def rollingGame_def
        initialGame_def Let_def kdefs hypot_zero_right)
  have m: "ballMoving (rollingGame 1 (1 / 40))" by (simp add: rollingGame_def)
  have h2: "speedXz (fst (integrateStep (1 / 60) (rollingGame 1 (1 / 40)))) < 2 / 100"
    by (simp add: step speedXz_def hypot_zero_right)
  have h3: "\<not> ballAirborne (fst (integrateStep (1 / 60) (rollingGame 1 (1 / 40))))"
    by (simp add: step) (simp add: rollingGame_def initialGame_def)
  have h4: "\<not> (ballDroppedIn (fst (integrateStep (1 / 60) (rollingGame 1 (1 / 40))))
            \<or> distToHole (fst (integrateStep (1 / 60) (rollingGame 1 (1 / 40)))) \<le> HOLE_RADIUS_M
            \<or> crossedHole (snd (integrateStep (1 / 60) (rollingGame 1 (1 / 40))))
                 (fst (integrateStep (1 / 60) (rollingGame 1 (1 / 40)))))"
    by (simp add: step ballDroppedIn_def distToHole_def crossedHole_def hypot_zero_right kdefs)
  have idle: "\<not> ballMoving (initialGame flatTerrain)" by (simp add: initialGame_def)
  from updatePhysics_stop [OF m h2 h3 h4, of "[1 / 60, 1 / 30]" "initialGame flatTerrain" "1 / 60"]
    idle
  show ?thesis by (simp add: step)
qed


lemma holeCapture_capture:
  assumes "ballDroppedIn g \<or> distToHole g \<le> HOLE_RADIUS_M \<or> crossedHole cd g"
    and "ballDroppedIn g \<or> (\<not> ballAirborne g \<and> speedXz g < 145 / 100)"
  shows "inHole (holeCapture cd g)" and "\<not> ballMoving (holeCapture cd g)"
    and "ballVel (holeCapture cd g) = (0, 0, 0)"
    and "fst (snd (ballPos (holeCapture cd g))) = - (40 / 100) + BALL_RADIUS_M"
    and "ghostGroup (holeCapture cd g) =
           Some (simulateGhostRest (terrainState g) (angleDeg g) (stimpM g)
                   (ballPos g) (ballVel g) (ballSpin g))"
  using assms
  by (simp_all add: holeCapture_def Let_def case_prod_beta placeGhostCross_def)

lemma holeCapture_lipout:
  assumes "ballDroppedIn g \<or> distToHole g \<le> HOLE_RADIUS_M \<or> crossedHole cd g"
    and "\<not> (ballDroppedIn g \<or> (\<not> ballAirborne g \<and> speedXz g < 145 / 100))"
  shows "holeCapture cd g =
           (if distToHole g \<le> HOLE_RADIUS_M
            then g\<lparr>ballVel := (fst (ballVel g) * (92 / 100), fst (snd (ballVel g)),
                                snd (snd (ballVel g)) * (92 / 100))\<rparr>
            else g)"
  unfolding holeCapture_def Let_def case_prod_beta if_P [OF assms(1)] if_not_P [OF assms(2)]
  by simp

text \<open>
  C2, amended. Let the ball be moving and reach the hole in this step: after the
  integration part, it is within hole radius plus ball radius of the axis and below
  half a ball radius (the test \<open>ballDroppedIn\<close>), or within the hole radius, or its segment
  passed within the hole radius while on the ground. Then the ball is captured exactly
  when \<open>ballDroppedIn\<close> holds or it is on the ground with horizontal speed below 1.45. On
  capture the velocity is zero, the height is \<open>-0.40 + BALL_RADIUS_M\<close> and the ghost cross is
  at the rest position computed from the position, velocity and spin before the
  capture. Otherwise the ball keeps moving from the integrated position; its horizontal
  velocity is scaled by 0.92 when it ended within the hole radius, and is the integrated
  velocity when it ended outside it.
\<close>

theorem updatePhysics_capture:
  assumes "ballMoving g"
  shows
    "let g1 = fst (integrateStep dt g);
         closestDist = snd (integrateStep dt g);
         g2 = updatePhysics dt g;
         captured = (ballDroppedIn g1
                     \<or> (\<not> ballAirborne g1 \<and> speedXz g1 < 145 / 100))
     in ballDroppedIn g1 \<or> distToHole g1 \<le> HOLE_RADIUS_M \<or> crossedHole closestDist g1 \<longrightarrow>
          ((inHole g2 \<and> \<not> ballMoving g2) = captured)
          \<and> (if captured
              then ballVel g2 = (0, 0, 0)
                   \<and> fst (snd (ballPos g2)) = - (40 / 100) + BALL_RADIUS_M
                   \<and> ghostGroup g2 =
                       Some (simulateGhostRest (terrainState g) (angleDeg g) (stimpM g)
                               (ballPos g1) (ballVel g1) (ballSpin g1))
              else ballMoving g2
                   \<and> ballPos g2 = ballPos g1
                   \<and> ballVel g2 =
                       (if distToHole g1 \<le> HOLE_RADIUS_M
                        then (fst (ballVel g1) * (92 / 100), fst (snd (ballVel g1)),
                              snd (snd (ballVel g1)) * (92 / 100))
                        else ballVel g1))"
proof -
  define g1 where "g1 = fst (integrateStep dt g)"
  define cd where "cd = snd (integrateStep dt g)"
  define captured where "captured \<longleftrightarrow> ballDroppedIn g1
                     \<or> (\<not> ballAirborne g1 \<and> speedXz g1 < 145 / 100)"
  have up: "updatePhysics dt g = breakDetect (holeCapture cd g1)"
    using assms(1) by (simp add: updatePhysics_def case_prod_beta g1_def cd_def)
  have cap: "captured \<longleftrightarrow> ballDroppedIn g1 \<or> (\<not> ballAirborne g1 \<and> speedXz g1 < 145 / 100)"
    unfolding captured_def ..
  have g1m: "ballMoving g1" "terrainState g1 = terrainState g" "angleDeg g1 = angleDeg g"
      "stimpM g1 = stimpM g"
    using assms(1) by (simp_all add: g1_def)
  have main: "((inHole (updatePhysics dt g) \<and> \<not> ballMoving (updatePhysics dt g)) = captured)
          \<and> (if captured
              then ballVel (updatePhysics dt g) = (0, 0, 0)
                   \<and> fst (snd (ballPos (updatePhysics dt g))) = - (40 / 100) + BALL_RADIUS_M
                   \<and> ghostGroup (updatePhysics dt g) =
                       Some (simulateGhostRest (terrainState g) (angleDeg g) (stimpM g)
                               (ballPos g1) (ballVel g1) (ballSpin g1))
              else ballMoving (updatePhysics dt g)
                   \<and> ballPos (updatePhysics dt g) = ballPos g1
                   \<and> ballVel (updatePhysics dt g) =
                       (if distToHole g1 \<le> HOLE_RADIUS_M
                        then (fst (ballVel g1) * (92 / 100), fst (snd (ballVel g1)),
                              snd (snd (ballVel g1)) * (92 / 100))
                        else ballVel g1))"
    if reach: "ballDroppedIn g1 \<or> distToHole g1 \<le> HOLE_RADIUS_M \<or> crossedHole cd g1"
  proof (cases captured)
    case True
    then have c: "ballDroppedIn g1 \<or> (\<not> ballAirborne g1 \<and> speedXz g1 < 145 / 100)"
      using cap by simp
    show ?thesis
      using True holeCapture_capture [OF reach c] by (simp add: up g1m)
  next
    case False
    then have c: "\<not> (ballDroppedIn g1 \<or> (\<not> ballAirborne g1 \<and> speedXz g1 < 145 / 100))"
      using cap by simp
    show ?thesis
      using False g1m(1) by (simp add: up holeCapture_lipout [OF reach c])
  qed
  show ?thesis
    unfolding Let_def g1_def [symmetric] cd_def [symmetric] captured_def [symmetric]
    using main by blast
qed


lemma rollingGame_moving: "ballMoving (rollingGame x velx)"
  by (simp add: rollingGame_def)

lemma rollingGame_globals:
  "terrainState (rollingGame x velx) = flatTerrain" "angleDeg (rollingGame x velx) = 0"
  "stimpM (rollingGame x velx) = STIMP_DEFAULT" "ballSpin (rollingGame x velx) = 0"
  "\<not> ballAirborne (rollingGame x velx)" "\<not> inHole (rollingGame x velx)"
  by (simp_all add: rollingGame_def initialGame_def)

lemma step_capture:
  "integrateStep (1 / 60) (rollingGame (7 / 125) (- 1)) =
     ((rollingGame (7 / 125) (- 1))\<lparr>ballPos := (315907 / 8000000, 43 / 2000, 0),
         ballVel := (- (396279 / 400000), 0, 0), travelDist := 132093 / 8000000,
         maxHeight := 43 / 2000\<rparr>, 315907 / 8000000)"
  by (simp add: integrateStep_def floorLevel_def floorCheck_def rollingGame_def
      initialGame_def Let_def kdefs hypot_zero_right)

lemma step_lipout:
  "integrateStep (1 / 60) (rollingGame (3 / 50) (- 2)) =
     ((rollingGame (3 / 50) (- 2))\<lparr>ballPos := (643721 / 24000000, 43 / 2000, 0),
         ballVel := (- (796279 / 400000), 0, 0), travelDist := 796279 / 24000000,
         maxHeight := 43 / 2000\<rparr>, 643721 / 24000000)"
  by (simp add: integrateStep_def floorLevel_def floorCheck_def rollingGame_def
      initialGame_def Let_def kdefs hypot_zero_right)

lemma step_tunnel:
  "integrateStep (1 / 30) (rollingGame (- (1 / 20)) (16 / 5)) =
     ((rollingGame (- (1 / 20)) (16 / 5))\<lparr>ballPos := (112093 / 2000000, 43 / 2000, 0),
         ballVel := (636279 / 200000, 0, 0), travelDist := 212093 / 2000000,
         maxHeight := 43 / 2000\<rparr>, 0)"
  by (simp add: integrateStep_def floorLevel_def floorCheck_def rollingGame_def
      initialGame_def Let_def kdefs hypot_zero_right)

lemmas holeTests = ballDroppedIn_def distToHole_def crossedHole_def speedXz_def
  hypot_zero_right BALL_RADIUS_M_def HOLE_RADIUS_M_def

text \<open>
  C2, as stated, fails. A ball at \<open>(-0.05, 0)\<close> rolling at 3.2 along the x axis, with a
  step of 1/30 s on the flat terrain, ends at \<open>x = 0.0560465\<close>: its segment crossed the
  hole axis on the ground, so it reached the hole; it is too fast to be captured; and
  its velocity after the step is the integrated velocity, not 0.92 times it.
\<close>

theorem updatePhysics_lipout_counterexample:
  "ballMoving (rollingGame (- (1 / 20)) (16 / 5))
   \<and> crossedHole (snd (integrateStep (1 / 30) (rollingGame (- (1 / 20)) (16 / 5))))
        (fst (integrateStep (1 / 30) (rollingGame (- (1 / 20)) (16 / 5))))
   \<and> \<not> inHole (updatePhysics (1 / 30) (rollingGame (- (1 / 20)) (16 / 5)))
   \<and> ballVel (fst (integrateStep (1 / 30) (rollingGame (- (1 / 20)) (16 / 5))))
       = (636279 / 200000, 0, 0)
   \<and> ballVel (updatePhysics (1 / 30) (rollingGame (- (1 / 20)) (16 / 5)))
       \<noteq> (636279 / 200000 * (92 / 100), 0, 0 * (92 / 100))"
proof -
  define g1 where "g1 = fst (integrateStep (1 / 30) (rollingGame (- (1 / 20)) (16 / 5)))"
  have g1: "ballPos g1 = (112093 / 2000000, 43 / 2000, 0)" "ballVel g1 = (636279 / 200000, 0, 0)"
      "\<not> ballAirborne g1" "\<not> inHole g1"
    by (simp_all add: g1_def step_tunnel rollingGame_globals)
  have reach: "ballDroppedIn g1 \<or> distToHole g1 \<le> HOLE_RADIUS_M \<or> crossedHole 0 g1"
    by (simp add: holeTests g1)
  have fast: "\<not> (ballDroppedIn g1 \<or> (\<not> ballAirborne g1 \<and> speedXz g1 < 145 / 100))"
    by (simp add: holeTests g1)
  have far: "\<not> distToHole g1 \<le> HOLE_RADIUS_M"
    by (simp add: holeTests g1)
  have hc: "holeCapture 0 g1 = g1"
    using holeCapture_lipout [OF reach fast] far by simp
  have up0: "updatePhysics (1 / 30) (rollingGame (- (1 / 20)) (16 / 5)) =
      breakDetect (holeCapture (snd (integrateStep (1 / 30) (rollingGame (- (1 / 20)) (16 / 5)))) g1)"
    unfolding g1_def by (simp add: updatePhysics_def rollingGame_moving case_prod_beta)
  have cd: "snd (integrateStep (1 / 30) (rollingGame (- (1 / 20)) (16 / 5))) = 0"
    by (simp add: step_tunnel)
  have up: "updatePhysics (1 / 30) (rollingGame (- (1 / 20)) (16 / 5)) = breakDetect g1"
    unfolding up0 cd hc ..
  show ?thesis
    unfolding up cd g1_def [symmetric]
    by (simp add: rollingGame_moving g1 crossedHole_def HOLE_RADIUS_M_def BALL_RADIUS_M_def)
qed

theorem updatePhysics_capture_witness:
  "inHole (updatePhysics (1 / 60) (rollingGame (7 / 125) (- 1)))
   \<and> \<not> ballMoving (updatePhysics (1 / 60) (rollingGame (7 / 125) (- 1)))
   \<and> ballVel (updatePhysics (1 / 60) (rollingGame (7 / 125) (- 1))) = (0, 0, 0)
   \<and> fst (snd (ballPos (updatePhysics (1 / 60) (rollingGame (7 / 125) (- 1)))))
       = - (40 / 100) + BALL_RADIUS_M
   \<and> ghostGroup (updatePhysics (1 / 60) (rollingGame (7 / 125) (- 1)))
       = Some (simulateGhostRest flatTerrain 0 STIMP_DEFAULT
                 (315907 / 8000000, 43 / 2000, 0) (- (396279 / 400000), 0, 0) 0)
   \<and> ballMoving (updatePhysics (1 / 60) (rollingGame (3 / 50) (- 2)))
   \<and> ballVel (updatePhysics (1 / 60) (rollingGame (3 / 50) (- 2)))
       = (- (796279 / 400000) * (92 / 100), 0, 0)
   \<and> ballMoving (updatePhysics (1 / 30) (rollingGame (- (1 / 20)) (16 / 5)))
   \<and> ballVel (updatePhysics (1 / 30) (rollingGame (- (1 / 20)) (16 / 5)))
       = (636279 / 200000, 0, 0)"
proof -
  have a: "inHole (updatePhysics (1 / 60) (rollingGame (7 / 125) (- 1)))
   \<and> \<not> ballMoving (updatePhysics (1 / 60) (rollingGame (7 / 125) (- 1)))
   \<and> ballVel (updatePhysics (1 / 60) (rollingGame (7 / 125) (- 1))) = (0, 0, 0)
   \<and> fst (snd (ballPos (updatePhysics (1 / 60) (rollingGame (7 / 125) (- 1)))))
       = - (40 / 100) + BALL_RADIUS_M
   \<and> ghostGroup (updatePhysics (1 / 60) (rollingGame (7 / 125) (- 1)))
       = Some (simulateGhostRest flatTerrain 0 STIMP_DEFAULT
                 (315907 / 8000000, 43 / 2000, 0) (- (396279 / 400000), 0, 0) 0)"
    using updatePhysics_capture [where g = "rollingGame (7 / 125) (- 1)" and dt = "1 / 60",
        OF rollingGame_moving]
    by (simp add: Let_def step_capture holeTests rollingGame_globals)
  have b: "ballMoving (updatePhysics (1 / 60) (rollingGame (3 / 50) (- 2)))
   \<and> ballVel (updatePhysics (1 / 60) (rollingGame (3 / 50) (- 2)))
       = (- (796279 / 400000) * (92 / 100), 0, 0)"
    using updatePhysics_capture [where g = "rollingGame (3 / 50) (- 2)" and dt = "1 / 60",
        OF rollingGame_moving]
    by (simp add: Let_def step_lipout holeTests rollingGame_globals)
  have c: "ballMoving (updatePhysics (1 / 30) (rollingGame (- (1 / 20)) (16 / 5)))
   \<and> ballVel (updatePhysics (1 / 30) (rollingGame (- (1 / 20)) (16 / 5)))
       = (636279 / 200000, 0, 0)"
    using updatePhysics_capture [where g = "rollingGame (- (1 / 20)) (16 / 5)" and dt = "1 / 30",
        OF rollingGame_moving]
    by (simp add: Let_def step_tunnel holeTests rollingGame_globals)
  from a b c show ?thesis by blast
qed

subsection \<open>The bounding ellipse\<close>

lemma maxExtent_max:
  "maxExtent cx cz ex ez fx fz ps =
     foldl (\<lambda>m q. (max (fst m) \<bar>(fst q - cx) * ex + (snd q - cz) * ez\<bar>,
                    max (snd m) \<bar>(fst q - cx) * fx + (snd q - cz) * fz\<bar>)) (0, 0) ps"
proof -
  have "(\<lambda>(maxA, maxB) (x, z).
              let dx = x - cx; dz = z - cz;
                  a = \<bar>dx * ex + dz * ez\<bar>;
                  b = \<bar>dx * fx + dz * fz\<bar>
              in (if a > maxA then a else maxA, if b > maxB then b else maxB))
        = (\<lambda>m q. (max (fst m) \<bar>(fst q - cx) * ex + (snd q - cz) * ez\<bar>,
                    max (snd m) \<bar>(fst q - cx) * fx + (snd q - cz) * fz\<bar>))"
    by (intro ext) (simp add: case_prod_beta Let_def max_def)
  then show ?thesis by (simp only: maxExtent_def)
qed

lemma foldl_max_pair_ge:
  fixes pa pb :: "point \<Rightarrow> real"
  shows "A \<le> fst (foldl (\<lambda>m q. (max (fst m) (pa q), max (snd m) (pb q))) (A, B) ps)
       \<and> B \<le> snd (foldl (\<lambda>m q. (max (fst m) (pa q), max (snd m) (pb q))) (A, B) ps)"
proof (induction ps arbitrary: A B)
  case Nil
  show ?case by simp
next
  case (Cons q ps)
  have "A \<le> max A (pa q)" "B \<le> max B (pb q)" by simp_all
  then show ?case using Cons [where A = "max A (pa q)" and B = "max B (pb q)"]
    by (simp; linarith)
qed

lemma foldl_max_pair_mem:
  fixes pa pb :: "point \<Rightarrow> real"
  assumes "q \<in> set ps"
  shows "pa q \<le> fst (foldl (\<lambda>m q. (max (fst m) (pa q), max (snd m) (pb q))) (A, B) ps)
       \<and> pb q \<le> snd (foldl (\<lambda>m q. (max (fst m) (pa q), max (snd m) (pb q))) (A, B) ps)"
  using assms
proof (induction ps arbitrary: A B)
  case Nil
  then show ?case by simp
next
  case (Cons r ps)
  show ?case
  proof (cases "q = r")
    case True
    have "pa r \<le> max A (pa r)" "pb r \<le> max B (pb r)" by simp_all
    then show ?thesis
      using foldl_max_pair_ge [where A = "max A (pa r)" and B = "max B (pb r)"
          and pa = pa and pb = pb and ps = ps] True
      by (simp; linarith)
  next
    case False
    then have "q \<in> set ps" using Cons.prems by simp
    then show ?thesis using Cons.IH [where A = "max A (pa r)" and B = "max B (pb r)"] by simp
  qed
qed

lemma maxExtent_ge:
  "0 \<le> fst (maxExtent cx cz ex ez fx fz ps)" "0 \<le> snd (maxExtent cx cz ex ez fx fz ps)"
  using foldl_max_pair_ge [where A = 0 and B = 0 and ps = ps
      and pa = "\<lambda>q. \<bar>(fst q - cx) * ex + (snd q - cz) * ez\<bar>"
      and pb = "\<lambda>q. \<bar>(fst q - cx) * fx + (snd q - cz) * fz\<bar>"]
  by (simp_all only: maxExtent_max)

lemma maxExtent_mem:
  assumes "p \<in> set ps"
  shows "\<bar>(fst p - cx) * ex + (snd p - cz) * ez\<bar> \<le> fst (maxExtent cx cz ex ez fx fz ps)"
    and "\<bar>(fst p - cx) * fx + (snd p - cz) * fz\<bar> \<le> snd (maxExtent cx cz ex ez fx fz ps)"
  using foldl_max_pair_mem [OF assms, where A = 0 and B = 0
      and pa = "\<lambda>q. \<bar>(fst q - cx) * ex + (snd q - cz) * ez\<bar>"
      and pb = "\<lambda>q. \<bar>(fst q - cx) * fx + (snd q - cz) * fz\<bar>"]
  by (simp_all only: maxExtent_max)

lemma hypot_pos: "a \<noteq> 0 \<or> b \<noteq> 0 \<Longrightarrow> 0 < hypot a b"
proof -
  assume "a \<noteq> 0 \<or> b \<noteq> 0"
  then have "0 < a * a + b * b"
    by (metis add_pos_nonneg add_nonneg_pos not_real_square_gt_zero zero_le_square)
  then show ?thesis by (simp add: hypot_def)
qed

lemma hypot_unit:
  assumes "a \<noteq> 0 \<or> b \<noteq> 0"
  shows "(a / hypot a b) * (a / hypot a b) + (b / hypot a b) * (b / hypot a b) = 1"
proof -
  have pos: "0 < a * a + b * b"
    using assms by (metis add_pos_nonneg add_nonneg_pos not_real_square_gt_zero zero_le_square)
  have sq: "hypot a b * hypot a b = a * a + b * b"
    unfolding hypot_def real_sqrt_mult_self using pos by simp
  have "(a / hypot a b) * (a / hypot a b) + (b / hypot a b) * (b / hypot a b)
          = (a * a + b * b) / (hypot a b * hypot a b)"
    by (simp add: add_divide_distrib)
  also have "\<dots> = (a * a + b * b) / (a * a + b * b)" by (simp only: sq)
  also have "\<dots> = 1"
  proof (rule divide_self)
    show "a * a + b * b \<noteq> 0" using pos by linarith
  qed
  finally show ?thesis .
qed

text \<open>
  C7. For every non-empty list of hull points, the semi-axes \<open>a\<close> and \<open>b\<close> of
  \<open>boundingEllipse\<close> are non-negative, each of the two axis directions has length 1,
  the two directions are orthogonal, and for every hull point the absolute projection of
  (point - centre) on the principal axis is at most \<open>a\<close> and on the secondary axis at
  most \<open>b\<close>.
\<close>

theorem boundingEllipse_bounds:
  assumes "hull' \<noteq> []"
  shows "0 \<le> el_a (boundingEllipse hull') \<and> 0 \<le> el_b (boundingEllipse hull')
       \<and> el_ex (boundingEllipse hull') * el_ex (boundingEllipse hull')
           + el_ez (boundingEllipse hull') * el_ez (boundingEllipse hull') = 1
       \<and> el_fx (boundingEllipse hull') * el_fx (boundingEllipse hull')
           + el_fz (boundingEllipse hull') * el_fz (boundingEllipse hull') = 1
       \<and> el_ex (boundingEllipse hull') * el_fx (boundingEllipse hull')
           + el_ez (boundingEllipse hull') * el_fz (boundingEllipse hull') = 0
       \<and> (\<forall>p \<in> set hull'.
             \<bar>(fst p - el_cx (boundingEllipse hull')) * el_ex (boundingEllipse hull')
               + (snd p - el_cz (boundingEllipse hull')) * el_ez (boundingEllipse hull')\<bar>
               \<le> el_a (boundingEllipse hull')
           \<and> \<bar>(fst p - el_cx (boundingEllipse hull')) * el_fx (boundingEllipse hull')
               + (snd p - el_cz (boundingEllipse hull')) * el_fz (boundingEllipse hull')\<bar>
               \<le> el_b (boundingEllipse hull'))"
proof -
  define n where "n = real (length hull')"
  define cx where "cx = fst (sumPoints hull') / n"
  define cz where "cz = snd (sumPoints hull') / n"
  define cxx where "cxx = fst (sumCovariance cx cz hull') / n"
  define cxz where "cxz = fst (snd (sumCovariance cx cz hull')) / n"
  define czz where "czz = snd (snd (sumCovariance cx cz hull')) / n"
  define lam1 where "lam1 = (cxx + czz) / 2
                       + sqrt ((cxx - czz) / 2 * ((cxx - czz) / 2) + cxz * cxz)"
  define e0 where "e0 = (if \<bar>cxz\<bar> > 1 / 10 ^ 12 then (lam1 - czz, cxz)
             else (if cxx \<ge> czz then 1 else 0, if cxx \<ge> czz then 0 else 1))"
  define ex where "ex = fst e0 / hypot (fst e0) (snd e0)"
  define ez where "ez = snd e0 / hypot (fst e0) (snd e0)"
  define M where "M = maxExtent cx cz ex ez (- ez) ex hull'"
  have E: "boundingEllipse hull' =
      \<lparr>el_cx = cx, el_cz = cz, el_a = fst M * (105 / 100), el_b = snd M * (105 / 100),
       el_ex = ex, el_ez = ez, el_fx = - ez, el_fz = ex\<rparr>"
    unfolding boundingEllipse_def M_def ex_def ez_def e0_def lam1_def czz_def cxz_def cxx_def
      cz_def cx_def n_def
    by (simp only: Let_def case_prod_beta)
  have nz: "fst e0 \<noteq> 0 \<or> snd e0 \<noteq> 0"
  proof (cases "\<bar>cxz\<bar> > 1 / 10 ^ 12")
    case True
    have "(0::real) < 1 / 10 ^ 12" by simp
    then have "cxz \<noteq> 0" using True by linarith
    then show ?thesis using True by (simp add: e0_def)
  next
    case False
    then show ?thesis by (simp add: e0_def)
  qed
  have unit: "ex * ex + ez * ez = 1"
    unfolding ex_def ez_def by (rule hypot_unit [OF nz])
  have ge: "0 \<le> fst M" "0 \<le> snd M"
    unfolding M_def by (rule maxExtent_ge)+
  have mem: "\<bar>(fst p - cx) * ex + (snd p - cz) * ez\<bar> \<le> fst M * (105 / 100)
             \<and> \<bar>(fst p - cx) * (- ez) + (snd p - cz) * ex\<bar> \<le> snd M * (105 / 100)"
    if "p \<in> set hull'" for p
    using maxExtent_mem [OF that, where cx = cx and cz = cz and ex = ex and ez = ez
        and fx = "- ez" and fz = ex] ge
    unfolding M_def by linarith
  have sel: "el_cx (boundingEllipse hull') = cx" "el_cz (boundingEllipse hull') = cz"
      "el_a (boundingEllipse hull') = fst M * (105 / 100)"
      "el_b (boundingEllipse hull') = snd M * (105 / 100)"
      "el_ex (boundingEllipse hull') = ex" "el_ez (boundingEllipse hull') = ez"
      "el_fx (boundingEllipse hull') = - ez" "el_fz (boundingEllipse hull') = ex"
    by (simp_all only: E ellipse.simps)
  have a0: "0 \<le> fst M * (105 / 100)" "0 \<le> snd M * (105 / 100)" using ge by simp_all
  have unit2: "- ez * - ez + ex * ex = 1" using unit by (simp only: minus_mult_minus add.commute)
  have orth: "ex * - ez + ez * ex = 0" by simp
  show ?thesis
    unfolding sel using a0 unit unit2 orth mem by blast
qed

theorem boundingEllipse_bounds_witness:
  "el_cx (boundingEllipse [(0, 0), (2, 0)]) = 1
   \<and> el_a (boundingEllipse [(0, 0), (2, 0)]) = 105 / 100
   \<and> el_b (boundingEllipse [(0, 0), (2, 0)]) = 0
   \<and> el_ex (boundingEllipse [(0, 0), (2, 0)]) * el_ex (boundingEllipse [(0, 0), (2, 0)])
       + el_ez (boundingEllipse [(0, 0), (2, 0)]) * el_ez (boundingEllipse [(0, 0), (2, 0)]) = 1
   \<and> \<bar>(0 - el_cx (boundingEllipse [(0, 0), (2, 0)])) * el_ex (boundingEllipse [(0, 0), (2, 0)])
        + (0 - el_cz (boundingEllipse [(0, 0), (2, 0)])) * el_ez (boundingEllipse [(0, 0), (2, 0)])\<bar>
       \<le> el_a (boundingEllipse [(0, 0), (2, 0)])
   \<and> \<bar>(2 - el_cx (boundingEllipse [(0, 0), (2, 0)])) * el_ex (boundingEllipse [(0, 0), (2, 0)])
        + (0 - el_cz (boundingEllipse [(0, 0), (2, 0)])) * el_ez (boundingEllipse [(0, 0), (2, 0)])\<bar>
       \<le> el_a (boundingEllipse [(0, 0), (2, 0)])"
proof -
  have ne: "[(0, 0), (2, 0 :: real)] \<noteq> []" by simp
  have v: "boundingEllipse [(0, 0), (2, 0)] =
      \<lparr>el_cx = 1, el_cz = 0, el_a = 105 / 100, el_b = 0,
       el_ex = 1, el_ez = 0, el_fx = 0, el_fz = 1\<rparr>"
    by (simp add: boundingEllipse_def sumPoints_def sumCovariance_def maxExtent_def Let_def
        hypot_def)
  from boundingEllipse_bounds [OF ne] show ?thesis by (simp add: v)
qed

subsection \<open>The order in which the builder consumes the stream\<close>

lemma rng_skip_add: "rng_skip (a + b) r = rng_skip b (rng_skip a r)"
  by (induction a arbitrary: r) simp_all

lemma draw_skip: "draw (rng_skip k r) i = draw r (k + i)"
  by (simp add: draw_def rng_skip_add)

lemma draw_Suc: "draw (snd (rng_fn r)) i = draw r (Suc i)"
  by (simp add: draw_def)

lemma makeNoiseRow_draws:
  "makeNoiseRow n a r = (map (\<lambda>x. - a + draw r x * (a - - a)) [0..<n], rng_skip n r)"
proof (induction n arbitrary: r)
  case 0
  show ?case by simp
next
  case (Suc n)
  have "makeNoiseRow (Suc n) a r =
          ((- a + draw r 0 * (a - - a)) # map (\<lambda>x. - a + draw r (Suc x) * (a - - a)) [0..<n],
           rng_skip (Suc n) r)"
    by (simp add: Suc uniform_def case_prod_beta draw_Suc) (simp add: draw_def)
  then show ?case by (simp only: map_upt_Suc)
qed

lemma makeNoiseRows_draws:
  "makeNoiseRows n sz a r =
     (map (\<lambda>y. map (\<lambda>x. - a + draw r (y * sz + x) * (a - - a)) [0..<sz]) [0..<n],
      rng_skip (n * sz) r)"
proof (induction n arbitrary: r)
  case 0
  show ?case by simp
next
  case (Suc n)
  have "makeNoiseRows (Suc n) sz a r =
          (map (\<lambda>x. - a + draw r (0 * sz + x) * (a - - a)) [0..<sz]
             # map (\<lambda>y. map (\<lambda>x. - a + draw r (Suc y * sz + x) * (a - - a)) [0..<sz]) [0..<n],
           rng_skip (Suc n * sz) r)"
    by (simp add: Suc makeNoiseRow_draws draw_skip rng_skip_add add.assoc)
  then show ?case by (simp only: map_upt_Suc)
qed

lemma makeNoiseGrid_draws:
  "makeNoiseGrid sz a r = (noiseFrom r 0 sz a, rng_skip (sz * sz) r)"
  by (simp add: makeNoiseGrid_def makeNoiseRows_draws noiseFrom_def)

lemma noiseFrom_skip: "noiseFrom (rng_skip k r) off sz a = noiseFrom r (k + off) sz a"
  by (simp add: noiseFrom_def draw_skip add.assoc)

lemma rng_skip_Seeded: "rng_skip n (Seeded s) = Seeded (s + of_nat n * 0x6D2B79F5)"
proof (induction n arbitrary: s)
  case 0
  show ?case by simp
next
  case (Suc n)
  have "snd (rng_fn (Seeded s)) = Seeded (s + 0x6D2B79F5)"
    by (simp add: mulberry32_next_def Let_def)
  then show ?case by (simp add: Suc algebra_simps)
qed

lemma draw_Seeded: "draw (Seeded s) i = fst (mulberry32_next (s + of_nat i * 0x6D2B79F5))"
  by (simp add: draw_def rng_skip_Seeded case_prod_beta)

lemma rng_skip_Unseeded: "rng_skip n (Unseeded f) = Unseeded (\<lambda>i. f (n + i))"
  by (induction n arbitrary: f) simp_all

lemma draw_Unseeded: "draw (Unseeded f) i = f i"
  by (simp add: draw_def rng_skip_Unseeded)

text \<open>
  C5, amended. For every seed the three grids are made from consecutive blocks of the
  seeded stream, in the order of the three assignments of \<open>buildTrueRollGrids\<close>: draws
  \<open>0 .. N*N - 1\<close> fill the noise of \<open>TRUE_ROLL_AX\<close> (smoothed \<open>K\<close> times), draws
  \<open>N*N .. 2*N*N - 1\<close> the noise of \<open>TRUE_ROLL_AY\<close> (\<open>K\<close> times) and draws
  \<open>2*N*N .. 3*N*N - 1\<close> the noise of the height grid (\<open>K + 2\<close> times), where draw number
  \<open>i\<close> is the output of the generator in state \<open>seed + (i + 1) * 0x6D2B79F5\<close>.
\<close>

theorem buildTrueRollGrids_order:
  "TRUE_ROLL_AX (buildTrueRollGrids (Some seed) random T) =
     Some (normalizeGrid (smoothGrid
       (noiseFrom (Seeded (mulberry32 seed)) 0 TR_GRID_SIZE TR_BASE_AMP)
       TR_SMOOTH_PASSES) TR_TARGET_AMP)
   \<and> TRUE_ROLL_AY (buildTrueRollGrids (Some seed) random T) =
     Some (normalizeGrid (smoothGrid
       (noiseFrom (Seeded (mulberry32 seed)) (TR_GRID_SIZE * TR_GRID_SIZE) TR_GRID_SIZE TR_BASE_AMP)
       TR_SMOOTH_PASSES) TR_TARGET_AMP)
   \<and> HEIGHT_GRID (buildTrueRollGrids (Some seed) random T) =
     Some (normalizeGrid (smoothGrid
       (noiseFrom (Seeded (mulberry32 seed)) (2 * (TR_GRID_SIZE * TR_GRID_SIZE)) TR_GRID_SIZE
          TR_BASE_AMP)
       (TR_SMOOTH_PASSES + 2)) TR_TARGET_AMP)
   \<and> draw (Seeded (mulberry32 seed)) i
       = fst (mulberry32_next (mulberry32 seed + of_nat i * 0x6D2B79F5))"
  by (simp add: buildTrueRollGrids_def makeRng_def makeNoiseGrid_draws noiseFrom_skip
      rng_skip_add [symmetric] draw_Seeded Let_def mult_2)


lemma noiseFrom_const:
  assumes "\<forall>i. off \<le> i \<and> i < off + sz * sz \<longrightarrow> draw r i = u"
  shows "noiseFrom r off sz a = constGrid sz (- a + u * (a - - a))"
proof -
  have "draw r (off + y * sz + x) = u" if "y < sz" "x < sz" for y x
  proof -
    have "y * sz + x < sz * sz"
    proof -
      have "y * sz + x < y * sz + sz" using that(2) by simp
      also have "\<dots> = Suc y * sz" by simp
      also have "\<dots> \<le> sz * sz" using that(1) by (metis Suc_leI mult_le_mono1)
      finally show ?thesis .
    qed
    then show ?thesis using assms by simp
  qed
  then have "map (\<lambda>y. map (\<lambda>x. - a + draw r (off + y * sz + x) * (a - - a)) [0..<sz]) [0..<sz]
               = map (\<lambda>y. map (\<lambda>x. - a + u * (a - - a)) [0..<sz]) [0..<sz]"
    by (intro map_cong refl) simp
  then show ?thesis
    by (simp add: noiseFrom_def constGrid_def map_replicate_const)
qed

lemma smoothCell_const:
  assumes cells: "\<forall>yy xx. 0 \<le> yy \<and> yy < sz \<and> 0 \<le> xx \<and> xx < sz \<longrightarrow> cur ! nat yy ! nat xx = c"
    and y: "0 \<le> y" "y < sz" and x: "0 \<le> x" "x < sz"
  shows "smoothCell cur sz y x = c"
proof -
  define F where "F = (\<lambda>(total :: real, count :: nat) (dy, dx).
                 let yy = y + dy; xx = x + dx
                 in if yy \<ge> 0 \<and> yy < sz \<and> xx \<ge> 0 \<and> xx < sz
                    then (total + cur ! nat yy ! nat xx, count + 1)
                    else (total, count))"
  have step: "\<exists>n'. F (real n * c, n) o1 = (real n' * c, n') \<and> n \<le> n'" for n o1
  proof (cases "y + fst o1 \<ge> 0 \<and> y + fst o1 < sz \<and> x + snd o1 \<ge> 0 \<and> x + snd o1 < sz")
    case True
    then have "cur ! nat (y + fst o1) ! nat (x + snd o1) = c" using cells by blast
    then have "F (real n * c, n) o1 = (real (n + 1) * c, n + 1)"
      using True by (simp add: F_def case_prod_beta Let_def algebra_simps)
    then show ?thesis by (intro exI [of _ "n + 1"]) simp
  next
    case False
    then have "F (real n * c, n) o1 = (real n * c, n)"
      unfolding F_def case_prod_beta Let_def fst_conv snd_conv by (rule if_not_P)
    then show ?thesis by blast
  qed
  have run: "\<exists>n'. foldl F (real n * c, n) ofs = (real n' * c, n') \<and> n \<le> n'" for n ofs
  proof (induction ofs arbitrary: n)
    case Nil
    show ?case by simp
  next
    case (Cons o1 ofs)
    obtain n1 where n1: "F (real n * c, n) o1 = (real n1 * c, n1)" "n \<le> n1"
      using step by blast
    obtain n2 where "foldl F (real n1 * c, n1) ofs = (real n2 * c, n2)" "n1 \<le> n2"
      using Cons by blast
    then show ?case using n1 by (intro exI [of _ n2]) simp
  qed
  have mid: "F (real n * c, n) (0, 0) = (real (n + 1) * c, n + 1)" for n
  proof -
    have "cur ! nat y ! nat x = c" using cells y x by blast
    then show ?thesis using y x by (simp add: F_def Let_def algebra_simps)
  qed
  define pre :: "(int \<times> int) list" where "pre = [(-1, -1), (-1, 0), (-1, 1), (0, -1)]"
  define post :: "(int \<times> int) list" where "post = [(0, 1), (1, -1), (1, 0), (1, 1)]"
  have ofs: "concat (map (\<lambda>dy. map (\<lambda>dx. (dy, dx)) [-1, 0, 1]) [-1, 0, 1 :: int])
               = pre @ (0, 0) # post"
    by (simp add: pre_def post_def)
  obtain n1 where n1: "foldl F (real 0 * c, 0) pre = (real n1 * c, n1)"
    using run [of 0 pre] by blast
  obtain n2 where n2: "foldl F (real (n1 + 1) * c, n1 + 1) post = (real n2 * c, n2)" "n1 + 1 \<le> n2"
    using run [of "n1 + 1" post] by blast
  have "foldl F (0, 0) (pre @ (0, 0) # post) = (real n2 * c, n2)"
    using n1 n2(1) mid [of n1] by simp
  then have res: "foldl F (0, 0)
      (concat (map (\<lambda>dy. map (\<lambda>dx. (dy, dx)) [-1, 0, 1]) [-1, 0, 1 :: int])) = (real n2 * c, n2)"
    by (simp only: ofs)
  have "smoothCell cur sz y x = real n2 * c / real n2"
    unfolding smoothCell_def Let_def case_prod_beta
      res [unfolded F_def Let_def case_prod_beta] fst_conv snd_conv ..
  then show ?thesis using n2(2) by simp
qed

lemma constGrid_nth:
  "0 \<le> yy \<Longrightarrow> yy < int n \<Longrightarrow> 0 \<le> xx \<Longrightarrow> xx < int n \<Longrightarrow> constGrid n c ! nat yy ! nat xx = c"
proof -
  assume a: "0 \<le> yy" "yy < int n" "0 \<le> xx" "xx < int n"
  have "nat yy < n" "nat xx < n" using a by linarith+
  then show ?thesis by (simp add: constGrid_def)
qed

lemma smoothPass_const: "smoothPass n (constGrid n c) = constGrid n c"
proof -
  have cell: "smoothCell (constGrid n c) (int n) (int y) (int x) = c" if "y < n" "x < n" for y x
    using that by (intro smoothCell_const) (simp_all add: constGrid_nth)
  have "map (\<lambda>y. map (\<lambda>x. smoothCell (constGrid n c) (int n) (int y) (int x)) [0..<n]) [0..<n]
          = map (\<lambda>y. map (\<lambda>x. c) [0..<n]) [0..<n]"
    by (intro map_cong refl) (simp add: cell)
  then show ?thesis by (simp add: smoothPass_def constGrid_def map_replicate_const)
qed

lemma smoothGrid_const: "smoothGrid (constGrid n c) p = constGrid n c"
proof -
  have "smoothLoop p n (constGrid n c) = constGrid n c"
    by (induction p) (simp_all add: smoothPass_const)
  then show ?thesis by (simp add: smoothGrid_def constGrid_def)
qed

lemma gridMaxAbs_const: "0 < n \<Longrightarrow> gridMaxAbs (constGrid n c) = \<bar>c\<bar>"
proof -
  assume n: "0 < n"
  have "gridBounded \<bar>c\<bar> (constGrid n c)"
    by (simp add: gridBounded_def constGrid_def list_all_iff)
  then have le: "gridMaxAbs (constGrid n c) \<le> \<bar>c\<bar>" by (intro gridMaxAbs_le) simp
  have "replicate n c \<in> set (constGrid n c)" "c \<in> set (replicate n c)"
    using n by (simp_all add: constGrid_def)
  then have "\<bar>c\<bar> \<le> gridMaxAbs (constGrid n c)" by (rule gridMaxAbs_mem)
  then show ?thesis using le by simp
qed

lemma normalizeGrid_const:
  assumes "0 < n" "1 / 10 ^ 9 \<le> \<bar>c\<bar>"
  shows "normalizeGrid (constGrid n c) t = constGrid n (c * (t / \<bar>c\<bar>))"
proof -
  have m: "gridMaxAbs (constGrid n c) = \<bar>c\<bar>" by (rule gridMaxAbs_const [OF assms(1)])
  have big: "\<not> \<bar>c\<bar> < 1 / 10 ^ 9" using assms(2) by linarith
  show ?thesis
    unfolding normalizeGrid_def m Let_def if_not_P [OF big]
    by (simp add: constGrid_def)
qed

lemma height_halfSource:
  "HEIGHT_GRID (buildTrueRollGrids None halfSource initialTerrain) = Some (constGrid 50 0)"
proof -
  have h: "halfSource = (\<lambda>i. 1 / 2)" by (intro ext) (simp add: halfSource_def)
  have "HEIGHT_GRID flatTerrain = Some (constGrid 50 0)"
    by (simp add: flatTerrain_eq zeroGrid_def constGrid_def TR_GRID_SIZE_def)
  then show ?thesis by (simp only: h flatTerrain_def)
qed

lemma height_lateSource:
  "HEIGHT_GRID (buildTrueRollGrids None lateSource initialTerrain) = Some (constGrid 50 (1 / 10))"
proof -
  have "noiseFrom (Unseeded lateSource) (2 * (50 * 50)) 50 (1 / 2) = constGrid 50 (1 / 4)"
    using noiseFrom_const [of "2 * (50 * 50)" 50 "Unseeded lateSource" "3 / 4" "1 / 2"]
    by (simp add: draw_Unseeded lateSource_def)
  then show ?thesis
    by (simp add: buildTrueRollGrids_def makeRng_def makeNoiseGrid_draws noiseFrom_skip
        rng_skip_add [symmetric] Let_def mult_2 TR_GRID_SIZE_def TR_BASE_AMP_def
        TR_TARGET_AMP_def smoothGrid_const normalizeGrid_const)
qed

text \<open>
  C5, as stated, fails: the height grid is not a function of the first \<open>N * N\<close> draws.
  The sequences \<open>halfSource\<close> and \<open>lateSource\<close> agree on the first \<open>N * N\<close> draws (and on
  the first 5000), and the builder makes different height grids from them: all 0 from
  the first, all 0.1 from the second. With seed 0, the first sample of the height
  grid is made from draw number 5000 of the stream, which differs from draw number 0.
\<close>

theorem buildTrueRollGrids_order_counterexample:
  "map lateSource [0..<TR_GRID_SIZE * TR_GRID_SIZE] = map halfSource [0..<TR_GRID_SIZE * TR_GRID_SIZE]
   \<and> HEIGHT_GRID (buildTrueRollGrids None lateSource initialTerrain)
       \<noteq> HEIGHT_GRID (buildTrueRollGrids None halfSource initialTerrain)
   \<and> draw (Seeded (mulberry32 0)) 0 = 1144304738 / 4294967296
   \<and> draw (Seeded (mulberry32 0)) (2 * (TR_GRID_SIZE * TR_GRID_SIZE))
       \<noteq> draw (Seeded (mulberry32 0)) 0"
proof -
  have a: "map lateSource [0..<TR_GRID_SIZE * TR_GRID_SIZE]
             = map halfSource [0..<TR_GRID_SIZE * TR_GRID_SIZE]"
    by (intro map_cong refl) (simp add: lateSource_def halfSource_def TR_GRID_SIZE_def)
  have b: "HEIGHT_GRID (buildTrueRollGrids None lateSource initialTerrain)
       \<noteq> HEIGHT_GRID (buildTrueRollGrids None halfSource initialTerrain)"
    by (simp add: height_halfSource height_lateSource constGrid_def)
  have c: "draw (Seeded (mulberry32 0)) 0 = 1144304738 / 4294967296"
    by (simp add: draw_Seeded mulberry32_def mulberry32_next_def Let_def)
  have d: "draw (Seeded (mulberry32 0)) (2 * (TR_GRID_SIZE * TR_GRID_SIZE))
       \<noteq> draw (Seeded (mulberry32 0)) 0"
    unfolding c by (simp add: draw_Seeded mulberry32_def mulberry32_next_def Let_def TR_GRID_SIZE_def)
  from a b c d show ?thesis by blast
qed

subsection \<open>The convex hull\<close>

text \<open>The comparator of the sort is the lexicographic order of pairs.\<close>

lemma lex_less: "(a :: point) < b \<longleftrightarrow> fst a < fst b \<or> (fst a = fst b \<and> snd a < snd b)"
  by (auto simp: less_prod_def')

lemma lex_le: "(a :: point) \<le> b \<longleftrightarrow> fst a < fst b \<or> (fst a = fst b \<and> snd a \<le> snd b)"
  by (auto simp: less_eq_prod_def)

lemma cmp_le: "cmp a b \<le> 0 \<longleftrightarrow> a \<le> b"
  by (auto simp: cmp_def lex_le)

text \<open>Rounding leaves an integer below \<open>2 ^ 53\<close> in magnitude as it is.\<close>

lemmas flEval = fl_def flAbs_def flUp.simps flDown.simps roundHalfEven_def Let_def

lemma roundHalfEven_of_int: "roundHalfEven (of_int m) = m"
  by (simp add: roundHalfEven_def)

lemma flUp_of_int: "0 \<le> m \<Longrightarrow> m < 2 ^ 53 \<Longrightarrow> flUp n (of_int m) = of_int m"
proof (induction n arbitrary: m)
  case 0
  show ?case by (subst flUp.simps) (simp add: roundHalfEven_of_int)
next
  case (Suc n)
  show ?case
  proof (cases "(2 :: real) ^ 52 \<le> of_int m")
    case True
    then show ?thesis by (subst flUp.simps) (simp add: roundHalfEven_of_int)
  next
    case False
    then have "m < 2 ^ 52" by simp
    then have "flUp n (of_int (2 * m)) = of_int (2 * m)"
      using Suc.prems(1) by (intro Suc.IH) auto
    then show ?thesis using False by (subst flUp.simps) simp
  qed
qed

lemma fl_int:
  assumes "x \<in> \<int>" and "\<bar>x\<bar> < 2 ^ 53"
  shows "fl x = x"
proof -
  obtain m where x: "x = of_int m" using assms(1) by (auto elim: Ints_cases)
  have m: "\<bar>m\<bar> < 2 ^ 53"
  proof -
    have "(of_int \<bar>m\<bar> :: real) < 2 ^ 53" using assms(2) unfolding x by simp
    then show ?thesis by simp
  qed
  show ?thesis
  proof (cases "m < 0")
    case True
    have "flUp 1074 (of_int (- m)) = of_int (- m)" using True m by (intro flUp_of_int) auto
    then show ?thesis using True m by (simp add: fl_def flAbs_def x)
  next
    case False
    have "flUp 1074 (of_int m) = of_int m" using False m by (intro flUp_of_int) auto
    then show ?thesis using False m by (simp add: fl_def flAbs_def x)
  qed
qed

lemma smallInt_Ints: "smallInt c \<Longrightarrow> c \<in> \<int>"
  unfolding smallInt_def by (metis Ints_of_int)

lemma fl_diff_small:
  assumes "smallInt a" and "smallInt b"
  shows "fl (a - b) = a - b" and "a - b \<in> \<int>" and "\<bar>a - b\<bar> < 2 ^ 26"
proof -
  show i: "a - b \<in> \<int>" using assms by (simp add: smallInt_Ints)
  have "\<bar>a\<bar> < 2 ^ 25" "\<bar>b\<bar> < 2 ^ 25" using assms by (simp_all add: smallInt_def)
  then show b: "\<bar>a - b\<bar> < 2 ^ 26" by simp
  then have "\<bar>a - b\<bar> < 2 ^ 53" by simp
  with i show "fl (a - b) = a - b" by (rule fl_int)
qed

lemma fl_mult_small:
  assumes "u \<in> \<int>" "\<bar>u\<bar> < 2 ^ 26" "v \<in> \<int>" "\<bar>v\<bar> < 2 ^ 26"
  shows "fl (u * v) = u * v" and "u * v \<in> \<int>" and "\<bar>u * v\<bar> < 2 ^ 52"
proof -
  show i: "u * v \<in> \<int>" using assms by simp
  have "\<bar>u\<bar> * \<bar>v\<bar> < 2 ^ 26 * 2 ^ 26" using assms(2,4) by (rule abs_mult_less)
  then show b: "\<bar>u * v\<bar> < 2 ^ 52" by (simp add: abs_mult)
  then have "\<bar>u * v\<bar> < 2 ^ 53" by simp
  with i show "fl (u * v) = u * v" by (rule fl_int)
qed

lemma cross_exact:
  assumes "smallPoint O'" and "smallPoint A" and "smallPoint B"
  shows "cross O' A B = crossExact O' A B"
proof -
  have s: "smallInt (fst O')" "smallInt (snd O')" "smallInt (fst A)" "smallInt (snd A)"
      "smallInt (fst B)" "smallInt (snd B)"
    using assms by (simp_all add: smallPoint_def)
  note d1 = fl_diff_small [OF s(3) s(1)] and d2 = fl_diff_small [OF s(6) s(2)]
    and d3 = fl_diff_small [OF s(4) s(2)] and d4 = fl_diff_small [OF s(5) s(1)]
  note p1 = fl_mult_small [OF d1(2,3) d2(2,3)] and p2 = fl_mult_small [OF d3(2,3) d4(2,3)]
  let ?p = "(fst A - fst O') * (snd B - snd O')"
  let ?q = "(snd A - snd O') * (fst B - fst O')"
  have "?p - ?q \<in> \<int>" using p1(2) p2(2) by simp
  moreover have "\<bar>?p - ?q\<bar> < 2 ^ 53" using p1(3) p2(3) by simp
  ultimately have "fl (?p - ?q) = ?p - ?q" by (rule fl_int)
  then show ?thesis unfolding cross_def crossExact_def d1(1) d2(1) d3(1) d4(1) p1(1) p2(1) .
qed

lemma exactTests_iff:
  "exactTests ps \<longleftrightarrow>
     (\<forall>a\<in>set ps. \<forall>b\<in>set ps. \<forall>c\<in>set ps. (cross a b c \<le> 0) = (crossExact a b c \<le> 0))"
  by (simp add: exactTests_def list_all_iff)

lemma smallPoint_exactTests: "list_all smallPoint ps \<Longrightarrow> exactTests ps"
  by (simp add: exactTests_iff list_all_iff cross_exact)

text \<open>Whatever the orientation tests return, the scan keeps input points only.\<close>

lemma hullPop_set: "set (hullPop st p) \<subseteq> set st"
proof (induction st p rule: hullPop.induct)
  case (1 st p)
  show ?case
  proof (cases "length st \<ge> 2 \<and> cross (st ! (length st - 2)) (st ! (length st - 1)) p \<le> 0")
    case True
    have "hullPop st p = hullPop (butlast st) p"
      by (subst hullPop.simps) (rule if_P [OF True])
    moreover have "set (hullPop (butlast st) p) \<subseteq> set (butlast st)" using 1 True by simp
    moreover have "set (butlast st) \<subseteq> set st" by (auto dest: in_set_butlastD)
    ultimately show ?thesis by simp
  next
    case False
    have "hullPop st p = st" by (subst hullPop.simps) (rule if_not_P [OF False])
    then show ?thesis by simp
  qed
qed

lemma scan_set: "set (foldl hullPush st xs) \<subseteq> set st \<union> set xs"
proof (induction xs arbitrary: st)
  case Nil
  show ?case by simp
next
  case (Cons x xs)
  have "set (hullPush st x) \<subseteq> insert x (set st)"
    using hullPop_set [of st x] by (auto simp: hullPush_def)
  then show ?case using Cons.IH [of "hullPush st x"] by auto
qed

lemma convexHull_subset: "set (convexHull points) \<subseteq> set points"
proof (cases "length (sort points) \<le> 2")
  case True
  then show ?thesis by (simp add: convexHull_def)
next
  case False
  have "set (butlast (foldl hullPush [] (sort points))) \<subseteq> set points"
    using scan_set [of "[]" "sort points"] by (auto dest: in_set_butlastD)
  moreover have "set (butlast (foldl hullPush [] (rev (sort points)))) \<subseteq> set points"
    using scan_set [of "[]" "rev (sort points)"] by (auto dest: in_set_butlastD)
  ultimately show ?thesis using False by (simp add: convexHull_def Let_def)
qed

text \<open>
  Two inputs. The rectangle with a point inside gives its four corners, counter-clockwise
  from the smallest; the second shows that the vertices come in that order, not in the
  order of the input.
\<close>

lemma convexHull_rectangle:
  "convexHull [(0, 0), (4, 0), (4, 3), (0, 3), (2, 1)] = [(0, 0), (4, 0), (4, 3), (0, 3)]"
  by (simp add: convexHull_def Let_def hullPush_def hullPop.simps cross_exact smallPoint_def
      smallInt_def crossExact_def less_eq_prod_def)

lemma convexHull_order:
  "convexHull [(1, 0), (0, 0), (0, 1)] = [(0, 0), (1, 0), (0, 1)]"
  by (simp add: convexHull_def Let_def hullPush_def hullPop.simps cross_exact smallPoint_def
      smallInt_def crossExact_def less_eq_prod_def)

text \<open>Signs of \<open>crossExact\<close> among points in lexicographic order.\<close>

lemma cross_identity_x:
  "(fst c - fst b) * crossExact a b p = (fst p - fst b) * crossExact a b c + (fst b - fst a) * crossExact b c p"
  by (simp add: crossExact_def algebra_simps)

lemma cross_identity_z:
  "(snd c - snd b) * crossExact a b p = (snd p - snd b) * crossExact a b c + (snd b - snd a) * crossExact b c p"
  by (simp add: crossExact_def algebra_simps)

lemma cross_self3 [simp]: "crossExact t p t = 0" "crossExact t p p = 0" "crossExact t t p = 0"
  by (simp_all add: crossExact_def)

lemma cross_cyclic: "crossExact a b c = crossExact b c a"
  by (simp add: crossExact_def algebra_simps)

lemma turn_trans:
  assumes "a < b" "b < c" "c < p" "0 < crossExact a b c" "0 < crossExact b c p"
  shows "0 < crossExact a b (p :: point)"
proof (cases "fst b < fst c")
  case True
  have pb: "0 < fst p - fst b" using True assms(3) by (auto simp: lex_less)
  have ba: "0 \<le> fst b - fst a" using assms(1) by (auto simp: lex_less)
  have "0 < (fst p - fst b) * crossExact a b c" using pb assms(4) by simp
  moreover have "0 \<le> (fst b - fst a) * crossExact b c p" using ba assms(5) by simp
  ultimately have "0 < (fst c - fst b) * crossExact a b p"
    using cross_identity_x [where a = a and b = b and c = c and p = p] by linarith
  then show ?thesis using True by (simp add: zero_less_mult_iff)
next
  case False
  then have eq: "fst c = fst b" and cz: "snd b < snd c" using assms(2) by (auto simp: lex_less)
  have "crossExact b c p = - ((snd c - snd b) * (fst p - fst b))"
    by (simp add: crossExact_def eq algebra_simps)
  then have "(snd c - snd b) * (fst p - fst b) < 0" using assms(5) by linarith
  then have "fst p - fst b < 0" using cz by (simp add: mult_less_0_iff)
  then show ?thesis using assms(3) eq by (auto simp: lex_less)
qed

lemma new_edge_above:
  assumes "t \<le> q" "t < b" "t < p" "crossExact t b p \<le> 0" "0 \<le> crossExact t b q"
  shows "0 \<le> crossExact t p (q :: point)"
proof (cases "fst t < fst b")
  case True
  have id: "(fst b - fst t) * crossExact t p q
              = (fst p - fst t) * crossExact t b q + (fst q - fst t) * (- crossExact t b p)"
    by (simp add: crossExact_def algebra_simps)
  have "0 \<le> fst p - fst t" "0 \<le> fst q - fst t" using assms(1,3) by (auto simp: lex_less lex_le)
  then have "0 \<le> (fst p - fst t) * crossExact t b q" "0 \<le> (fst q - fst t) * (- crossExact t b p)"
    using assms(4,5) by (simp_all add: mult_nonneg_nonneg del: mult_minus_right)
  then have "0 \<le> (fst b - fst t) * crossExact t p q" using id by linarith
  then show ?thesis using True by (simp add: zero_le_mult_iff)
next
  case False
  then have eq: "fst b = fst t" and bz: "snd t < snd b" using assms(2) by (auto simp: lex_less)
  have "crossExact t b q = - ((snd b - snd t) * (fst q - fst t))"
    by (simp add: crossExact_def eq algebra_simps)
  then have "(snd b - snd t) * (fst q - fst t) \<le> 0" using assms(5) by linarith
  then have "fst q - fst t \<le> 0" using bz by (simp add: mult_le_0_iff)
  then have qx: "fst q = fst t" and qz: "snd t \<le> snd q" using assms(1) by (auto simp: lex_le)
  have "crossExact t p q = (fst p - fst t) * (snd q - snd t)"
    by (simp add: crossExact_def qx algebra_simps)
  moreover have "0 \<le> fst p - fst t" using assms(3) by (auto simp: lex_less)
  ultimately show ?thesis using qz by simp
qed

lemma new_edge_below:
  assumes "a < t" "t < p" "q \<le> t" "0 < crossExact a t p" "0 \<le> crossExact a t q"
  shows "0 \<le> crossExact t p (q :: point)"
proof (cases "fst a < fst t")
  case True
  have id: "(fst t - fst a) * crossExact t p q
              = (fst p - fst t) * crossExact a t q + (fst t - fst q) * crossExact a t p"
    by (simp add: crossExact_def algebra_simps)
  have "0 \<le> fst p - fst t" "0 \<le> fst t - fst q" using assms(2,3) by (auto simp: lex_less lex_le)
  then have "0 \<le> (fst p - fst t) * crossExact a t q" "0 \<le> (fst t - fst q) * crossExact a t p"
    using assms(4,5) by simp_all
  then have "0 \<le> (fst t - fst a) * crossExact t p q" using id by linarith
  then show ?thesis using True by (simp add: zero_le_mult_iff)
next
  case False
  then have eq: "fst t = fst a" and tz: "snd a < snd t" using assms(1) by (auto simp: lex_less)
  have "crossExact a t p = - ((snd t - snd a) * (fst p - fst a))"
    by (simp add: crossExact_def eq algebra_simps)
  then have "(snd t - snd a) * (fst p - fst a) < 0" using assms(4) by linarith
  then have "fst p - fst a < 0" using tz by (simp add: mult_less_0_iff)
  then show ?thesis using assms(2) eq by (auto simp: lex_less)
qed

lemma collinear_line:
  assumes "x < m" "y < m" "crossExact x m y = 0" "0 \<le> crossExact m y q" "0 \<le> crossExact x m q"
  shows "crossExact x m (q :: point) = 0"
proof -
  have idx: "(fst y - fst m) * crossExact x m q
               = (fst m - fst x) * crossExact m y q + (fst q - fst m) * crossExact x m y"
    by (simp add: crossExact_def algebra_simps)
  have idz: "(snd y - snd m) * crossExact x m q
               = (snd m - snd x) * crossExact m y q + (snd q - snd m) * crossExact x m y"
    by (simp add: crossExact_def algebra_simps)
  show ?thesis
  proof (cases "fst y < fst m")
    case True
    have "0 \<le> (fst m - fst x) * crossExact m y q" using assms(1,4) by (auto simp: lex_less)
    then have "0 \<le> (fst y - fst m) * crossExact x m q" using idx assms(3) by simp
    moreover have "(fst y - fst m) * crossExact x m q \<le> 0"
      using True assms(5) by (simp add: mult_le_0_iff)
    ultimately have "(fst y - fst m) * crossExact x m q = 0" by simp
    then show ?thesis using True by simp
  next
    case False
    then have eq: "fst y = fst m" and yz: "snd y < snd m" using assms(2) by (auto simp: lex_less)
    have "crossExact x m y = (fst m - fst x) * (snd y - snd m)"
      by (simp add: crossExact_def eq algebra_simps)
    then have "fst m = fst x" using assms(3) yz by simp
    then have xz: "snd x < snd m" using assms(1) by (auto simp: lex_less)
    have "0 \<le> (snd m - snd x) * crossExact m y q" using xz assms(4) by simp
    then have "0 \<le> (snd y - snd m) * crossExact x m q" using idz assms(3) by simp
    moreover have "(snd y - snd m) * crossExact x m q \<le> 0"
      using yz assms(5) by (simp add: mult_le_0_iff)
    ultimately have "(snd y - snd m) * crossExact x m q = 0" by simp
    then show ?thesis using yz by simp
  qed
qed

lemma neg_neg [simp]: "neg (neg p) = p"
  by (simp add: neg_def)

lemma neg_eq_iff [simp]: "neg a = neg b \<longleftrightarrow> a = b"
  by (auto simp: neg_def prod_eq_iff)

lemma cross_neg [simp]: "crossExact (neg a) (neg b) (neg c) = crossExact a b c"
  by (simp add: crossExact_def neg_def algebra_simps)

lemma neg_less [simp]: "neg a < neg b \<longleftrightarrow> b < a"
  by (auto simp: lex_less neg_def)

lemma collinear_line_neg:
  assumes "m < x" "m < y" "crossExact x m y = 0" "0 \<le> crossExact m y q" "0 \<le> crossExact x m q"
  shows "crossExact x m (q :: point) = 0"
  using collinear_line [of "neg x" "neg m" "neg y" "neg q"] assms by simp

lemma collinear_three:
  assumes "x \<noteq> m" "crossExact x m a = 0" "crossExact x m b = 0"
  shows "crossExact m a (b :: point) = 0"
proof -
  have idx: "(fst m - fst x) * crossExact m a b
               = (fst a - fst m) * crossExact x m b - (fst b - fst m) * crossExact x m a"
    by (simp add: crossExact_def algebra_simps)
  have idz: "(snd m - snd x) * crossExact m a b
               = (snd a - snd m) * crossExact x m b - (snd b - snd m) * crossExact x m a"
    by (simp add: crossExact_def algebra_simps)
  have "fst m - fst x \<noteq> 0 \<or> snd m - snd x \<noteq> 0" using assms(1) by (auto simp: prod_eq_iff)
  then show ?thesis using idx idz assms(2,3) by auto
qed

lemma no_shared_vertex:
  assumes "a < v" "v < c" "0 < crossExact a v b" "0 \<le> crossExact a v c" "0 \<le> crossExact c v a"
    "0 \<le> crossExact v b (c :: point)"
  shows False
proof -
  have idx: "(fst c - fst v) * crossExact a v b
               = (fst b - fst v) * crossExact a v c + (fst a - fst v) * crossExact v b c"
    by (simp add: crossExact_def algebra_simps)
  have idz: "(snd c - snd v) * crossExact a v b
               = (snd b - snd v) * crossExact a v c + (snd a - snd v) * crossExact v b c"
    by (simp add: crossExact_def algebra_simps)
  have anti: "crossExact c v a = - crossExact a v c" by (simp add: crossExact_def algebra_simps)
  have z: "crossExact a v c = 0" using assms(4,5) anti by simp
  have cx: "0 \<le> fst c - fst v" and ax: "fst a - fst v \<le> 0"
    using assms(1,2) by (auto simp: lex_less)
  have "(fst a - fst v) * crossExact v b c \<le> 0" using ax assms(6) by (simp add: mult_le_0_iff)
  then have "(fst c - fst v) * crossExact a v b \<le> 0" using idx z by simp
  then have "fst c - fst v \<le> 0" using assms(3) by (simp add: mult_le_0_iff)
  then have ceq: "fst c = fst v" and cz: "snd v < snd c"
    using cx assms(2) by (auto simp: lex_less)
  have "crossExact a v c = (fst a - fst v) * (snd v - snd c)"
    by (simp add: crossExact_def ceq algebra_simps)
  then have "fst a = fst v" using z cz by simp
  then have az: "snd a < snd v" using assms(1) by (auto simp: lex_less)
  have "(snd a - snd v) * crossExact v b c \<le> 0" using az assms(6) by (simp add: mult_le_0_iff)
  then have "(snd c - snd v) * crossExact a v b \<le> 0" using idz z by simp
  then show False using cz assms(3) by (simp add: mult_le_0_iff)
qed

text \<open>
  One pass of the scan. After the points \<open>xs\<close>, strictly increasing, the array starts
  at the first and ends at the last of them, is strictly increasing, turns left at
  each of its points, and has every point of \<open>xs\<close> on or to the left of each of its edges.
\<close>

lemma rturns_tl: "rturns (x # r) \<Longrightarrow> rturns r"
  by (cases r rule: rturns.cases) (cases "x # r" rule: rturns.cases; simp)+

lemma rleft_tl: "rleft (x # r) q \<Longrightarrow> rleft r q"
  by (cases r) simp_all

lemma popc_nonempty: "st \<noteq> [] \<Longrightarrow> popc st p \<noteq> []"
  by (induction st p rule: popc.induct) simp_all

lemma popc_last: "st \<noteq> [] \<Longrightarrow> last (popc st p) = last st"
  by (induction st p rule: popc.induct) simp_all

lemma popc_set: "set (popc st p) \<subseteq> set st"
  by (induction st p rule: popc.induct) auto

lemma popc_sorted: "sorted_wrt R st \<Longrightarrow> sorted_wrt R (popc st p)"
  by (induction st p rule: popc.induct) auto

lemma popc_rturns: "rturns st \<Longrightarrow> rturns (popc st p)"
  by (induction st p rule: popc.induct) (auto dest: rturns_tl)

lemma popc_rleft: "rleft st q \<Longrightarrow> rleft (popc st p) q"
  by (induction st p rule: popc.induct) auto

lemma popc_exit: "popc st p = t # a # r \<Longrightarrow> 0 < crossExact a t p"
  by (induction st p rule: popc.induct) (auto split: if_splits)

lemma popc_above:
  assumes "st \<noteq> []" "sorted_wrt (\<lambda>a b. b < a) st" "\<forall>x\<in>set st. x < p" "rleft st q"
    and "hd st \<le> q \<longrightarrow> 0 \<le> crossExact (hd st) p q"
  shows "hd (popc st p) \<le> q \<longrightarrow> 0 \<le> crossExact (hd (popc st p)) p q"
  using assms
proof (induction st p rule: popc.induct)
  case (1 b a r p)
  show ?case
  proof (cases "crossExact a b p \<le> 0")
    case True
    have step: "a \<le> q \<longrightarrow> 0 \<le> crossExact a p q"
    proof
      assume "a \<le> q"
      moreover have "a < b" "a < p" using "1.prems" by auto
      moreover have "0 \<le> crossExact a b q" using "1.prems" by simp
      ultimately show "0 \<le> crossExact a p q" using True new_edge_above by blast
    qed
    have "hd (popc (a # r) p) \<le> q \<longrightarrow> 0 \<le> crossExact (hd (popc (a # r) p)) p q"
      using "1.IH" [OF True] "1.prems" step by simp
    then show ?thesis using True by simp
  next
    case False
    then show ?thesis using "1.prems" by simp
  qed
qed simp_all

lemma rleft_new:
  "rturns (t # a # r) \<Longrightarrow> sorted_wrt (\<lambda>a b. b < a) (t # a # r) \<Longrightarrow> t < p
     \<Longrightarrow> 0 < crossExact a t p \<Longrightarrow> rleft (t # a # r) p"
proof (induction r arbitrary: t a)
  case Nil
  then show ?case by simp
next
  case (Cons o' r)
  have turn: "0 < crossExact o' a t" and rt: "rturns (a # o' # r)" using Cons.prems(1) by simp_all
  have ord: "o' < a" "a < t" using Cons.prems(2) by simp_all
  have "0 < crossExact o' a p" using ord(1) ord(2) Cons.prems(3) turn Cons.prems(4) by (rule turn_trans)
  moreover have "a < p" using ord(2) Cons.prems(3) by (rule less_trans)
  moreover have "sorted_wrt (\<lambda>a b. b < a) (a # o' # r)" using Cons.prems(2) by simp
  ultimately have "rleft (a # o' # r) p" using Cons.IH rt by blast
  then show ?case using Cons.prems(4) by simp
qed

lemma pushc_inv:
  assumes inv: "chainInv st xs" and xs: "xs \<noteq> []" and lt: "\<forall>x\<in>set xs. x < p"
    and top: "\<forall>x\<in>set xs. x \<le> last xs" and bot: "\<forall>x\<in>set xs. hd xs \<le> x"
  shows "chainInv (pushc st p) (xs @ [p])"
proof -
  define st' where "st' = popc st p"
  have st: "st \<noteq> []" "hd st = last xs" "last st = hd xs" "set st \<subseteq> set xs"
    "sorted_wrt (\<lambda>a b. b < a) st" "rturns st" "\<forall>q\<in>set xs. rleft st q"
    using inv by (simp_all add: chainInv_def)
  have ne: "st' \<noteq> []" unfolding st'_def using st(1) by (rule popc_nonempty)
  have la: "last st' = hd xs" unfolding st'_def using popc_last [OF st(1)] st(3) by simp
  have sub: "set st' \<subseteq> set xs" unfolding st'_def using popc_set st(4) by blast
  have so: "sorted_wrt (\<lambda>a b. b < a) st'" unfolding st'_def using st(5) by (rule popc_sorted)
  have rt: "rturns st'" unfolding st'_def using st(6) by (rule popc_rturns)
  have rl: "\<forall>q\<in>set xs. rleft st' q" unfolding st'_def using st(7) popc_rleft by blast
  have ltst: "\<forall>x\<in>set st. x < p" using lt st(4) by blast
  obtain t rest where t: "st' = t # rest" using ne by (cases st') auto
  have tp: "t < p" using sub lt t by auto
  have txs: "t \<in> set xs" using sub t by auto
  have ex: "\<And>a r. rest = a # r \<Longrightarrow> 0 < crossExact a t p"
    using popc_exit [of st p t] t st'_def by simp
  have newedge: "0 \<le> crossExact t p q" if q: "q \<in> set xs" for q
  proof (cases "t \<le> q")
    case True
    have "hd st \<le> q \<longrightarrow> 0 \<le> crossExact (hd st) p q"
    proof
      assume "hd st \<le> q"
      moreover have "q \<le> hd st" using top q st(2) by simp
      ultimately have "q = hd st" by simp
      then show "0 \<le> crossExact (hd st) p q" by simp
    qed
    with popc_above [OF st(1) st(5) ltst] st(7) q
    have "hd st' \<le> q \<longrightarrow> 0 \<le> crossExact (hd st') p q" unfolding st'_def by blast
    then show ?thesis using True t by simp
  next
    case False
    then have qt: "q \<le> t" by simp
    show ?thesis
    proof (cases rest)
      case Nil
      then have "t = hd xs" using la t by simp
      then have "t \<le> q" using bot q by simp
      then show ?thesis using False by simp
    next
      case (Cons a r)
      have "a < t" using so t Cons by simp
      moreover have "0 < crossExact a t p" using ex Cons by simp
      moreover have "0 \<le> crossExact a t q" using rl q t Cons by auto
      ultimately show ?thesis using tp qt new_edge_below by blast
    qed
  qed
  have oldp: "rleft st' p"
  proof (cases rest)
    case Nil
    then show ?thesis using t by simp
  next
    case (Cons a r)
    show ?thesis unfolding t Cons
      using rt so tp ex [OF Cons] unfolding t Cons by (rule rleft_new)
  qed
  have "rturns (p # st')"
  proof (cases rest)
    case Nil
    then show ?thesis using t by simp
  next
    case (Cons a r)
    then show ?thesis using rt ex [OF Cons] t by simp
  qed
  moreover have "sorted_wrt (\<lambda>a b. b < a) (p # st')" using so sub lt by auto
  moreover have "\<forall>q\<in>set (xs @ [p]). rleft (p # st') q"
    using newedge oldp rl t by auto
  moreover have "last (p # st') = hd (xs @ [p])" using ne la xs by simp
  moreover have "set (p # st') \<subseteq> set (xs @ [p])" using sub by auto
  ultimately show ?thesis unfolding chainInv_def pushc_def st'_def [symmetric] by simp
qed

lemma sorted_le_last: "sorted xs \<Longrightarrow> x \<in> set xs \<Longrightarrow> x \<le> last (xs :: point list)"
  by (induction xs) auto

lemma strict_sorted_bounds:
  assumes "sorted_wrt (<) xs" "x \<in> set xs"
  shows "hd xs \<le> x \<and> x \<le> last (xs :: point list)"
proof -
  have s: "sorted xs" using assms(1) by (simp add: strict_sorted_iff)
  have "x \<le> last xs" using s assms(2) by (rule sorted_le_last)
  moreover have "hd xs \<le> x" using s assms(2) by (cases xs) auto
  ultimately show ?thesis by simp
qed

lemma scan_inv:
  "xs \<noteq> [] \<Longrightarrow> sorted_wrt (<) xs \<Longrightarrow> chainInv (foldl pushc [] xs) xs"
proof (induction xs rule: rev_induct)
  case Nil
  then show ?case by simp
next
  case (snoc p xs)
  show ?case
  proof (cases "xs = []")
    case True
    then show ?thesis by (simp add: pushc_def chainInv_def)
  next
    case False
    have so: "sorted_wrt (<) xs" and lt: "\<forall>x\<in>set xs. x < p"
      using snoc.prems(2) by (simp_all add: sorted_wrt_append)
    have inv: "chainInv (foldl pushc [] xs) xs" using snoc.IH False so by simp
    have top: "\<forall>x\<in>set xs. x \<le> last xs" and bot: "\<forall>x\<in>set xs. hd xs \<le> x"
      using strict_sorted_bounds [OF so] by blast+
    show ?thesis using pushc_inv [OF inv False lt top bot] by simp
  qed
qed

lemma popc_neg: "popc (map neg st) (neg p) = map neg (popc st p)"
  by (induction st p rule: popc.induct) simp_all

lemma scan_neg: "foldl pushc (map neg st) (map neg xs) = map neg (foldl pushc st xs)"
proof (induction xs arbitrary: st)
  case Nil
  show ?case by simp
next
  case (Cons x xs)
  have "pushc (map neg st) (neg x) = map neg (pushc st x)"
    by (simp add: pushc_def popc_neg)
  then show ?case using Cons.IH [of "pushc st x"] by simp
qed

lemma rturns_neg: "rturns (map neg st) = rturns st"
  by (induction st rule: rturns.induct) simp_all

lemma rleft_neg: "rleft (map neg st) (neg q) = rleft st q"
  by (induction st q rule: rleft.induct) simp_all

lemma scan_inv_desc:
  assumes ne: "xs \<noteq> []" and so: "sorted_wrt (<) xs"
  shows "foldl pushc [] (rev xs) \<noteq> []
    \<and> hd (foldl pushc [] (rev xs)) = hd xs
    \<and> last (foldl pushc [] (rev xs)) = last xs
    \<and> set (foldl pushc [] (rev xs)) \<subseteq> set xs
    \<and> sorted_wrt (<) (foldl pushc [] (rev xs))
    \<and> rturns (foldl pushc [] (rev xs))
    \<and> (\<forall>q\<in>set xs. rleft (foldl pushc [] (rev xs)) q)"
proof -
  define U where "U = foldl pushc [] (rev xs)"
  define ys where "ys = map neg (rev xs)"
  have ys: "ys \<noteq> []" "sorted_wrt (<) ys"
    using ne so by (simp_all add: ys_def sorted_wrt_map sorted_wrt_rev)
  have sc: "foldl pushc [] ys = map neg U"
    unfolding ys_def U_def using scan_neg [of "[]" "rev xs"] by simp
  have inv: "chainInv (map neg U) ys" using scan_inv [OF ys] sc by simp
  then have a: "map neg U \<noteq> []" "hd (map neg U) = last ys" "last (map neg U) = hd ys"
    "set (map neg U) \<subseteq> set ys" "sorted_wrt (\<lambda>a b. b < a) (map neg U)"
    "rturns (map neg U)" "\<forall>q\<in>set ys. rleft (map neg U) q"
    by (simp_all add: chainInv_def)
  have U: "U \<noteq> []" using a(1) by simp
  have "neg (hd U) = neg (hd xs)"
    using a(2) U ne by (simp add: ys_def hd_map last_map last_rev)
  then have h: "hd U = hd xs" by simp
  have "neg (last U) = neg (last xs)"
    using a(3) U ne by (simp add: ys_def hd_map last_map hd_rev)
  then have l: "last U = last xs" by simp
  have sub: "set U \<subseteq> set xs"
  proof
    fix x assume "x \<in> set U"
    then have "neg x \<in> set ys" using a(4) by auto
    then obtain x' where "x' \<in> set xs" "neg x = neg x'" by (auto simp: ys_def)
    then show "x \<in> set xs" by simp
  qed
  have srt: "sorted_wrt (<) U" using a(5) by (simp add: sorted_wrt_map)
  have rt: "rturns U" using a(6) by (simp add: rturns_neg)
  have rl: "\<forall>q\<in>set xs. rleft U q"
  proof
    fix q assume "q \<in> set xs"
    then have "neg q \<in> set ys" by (simp add: ys_def)
    then have "rleft (map neg U) (neg q)" using a(7) by blast
    then show "rleft U q" by (simp add: rleft_neg)
  qed
  show ?thesis using U h l sub srt rt rl unfolding U_def by blast
qed

text \<open>
  Where the orientation tests have the exact sign, the loops of the source are this
  scan, on the reversed array.
\<close>

lemma hullPop_rev:
  assumes agr: "\<forall>a\<in>S. \<forall>b\<in>S. \<forall>c\<in>S. (cross a b c \<le> 0) = (crossExact a b c \<le> 0)"
  shows "set st \<subseteq> S \<Longrightarrow> p \<in> S \<Longrightarrow> hullPop (rev st) p = rev (popc st p)"
proof (induction st p rule: popc.induct)
  case (1 b a r p)
  have n: "rev (b # a # r) = rev r @ [a, b]" by simp
  have c: "(cross a b p \<le> 0) = (crossExact a b p \<le> 0)" using agr "1.prems" by simp
  have "hullPop (rev r @ [a, b]) p
          = (if cross a b p \<le> 0 then hullPop (rev (a # r)) p else rev r @ [a, b])"
    by (subst hullPop.simps) (simp add: nth_append butlast_append)
  then show ?case using 1 c unfolding n by simp
qed (subst hullPop.simps, simp)+

lemma scan_rev:
  assumes agr: "\<forall>a\<in>S. \<forall>b\<in>S. \<forall>c\<in>S. (cross a b c \<le> 0) = (crossExact a b c \<le> 0)"
  shows "set st \<subseteq> S \<Longrightarrow> set xs \<subseteq> S \<Longrightarrow> foldl hullPush (rev st) xs = rev (foldl pushc st xs)"
proof (induction xs arbitrary: st)
  case Nil
  show ?case by simp
next
  case (Cons x xs)
  have "hullPush (rev st) x = rev (pushc st x)"
    using hullPop_rev [OF agr, of st x] Cons.prems by (simp add: hullPush_def pushc_def)
  moreover have "set (pushc st x) \<subseteq> S"
    using popc_set [of st x] Cons.prems by (auto simp: pushc_def)
  ultimately show ?case using Cons.IH [of "pushc st x"] Cons.prems by simp
qed

lemma leftTurns_snoc:
  "leftTurns (xs @ [a, b, c]) \<longleftrightarrow> leftTurns (xs @ [a, b]) \<and> 0 < crossExact a b c"
  by (induction xs rule: leftTurns.induct) auto

lemma leftTurns_rev: "leftTurns (rev st) = rturns st"
proof (induction st rule: rturns.induct)
  case (1 c b a r)
  have "leftTurns (rev r @ [a, b, c]) \<longleftrightarrow> leftTurns (rev r @ [a, b]) \<and> 0 < crossExact a b c"
    by (rule leftTurns_snoc)
  then show ?case using 1 by auto
qed simp_all

lemma leftOfEdges_snoc:
  "leftOfEdges (xs @ [a, b]) q \<longleftrightarrow> leftOfEdges (xs @ [a]) q \<and> 0 \<le> crossExact a b q"
  by (induction xs q rule: leftOfEdges.induct) auto

lemma leftOfEdges_rev: "leftOfEdges (rev st) q = rleft st q"
proof (induction st q rule: rleft.induct)
  case (1 b a r q)
  have "leftOfEdges (rev r @ [a, b]) q \<longleftrightarrow> leftOfEdges (rev r @ [a]) q \<and> 0 \<le> crossExact a b q"
    by (rule leftOfEdges_snoc)
  then show ?case using 1 by auto
qed simp_all

text \<open>
  The two chains put together. Where \<open>lower\<close> meets \<open>upper\<close> the turn is strict unless all the
  points are on one line, and then the hull has two vertices.
\<close>

lemma leftTurns_tl: "leftTurns (x # r) \<Longrightarrow> leftTurns r"
  by (cases r rule: leftTurns.cases) simp_all

lemma leftOfEdges_tl: "leftOfEdges (x # r) q \<Longrightarrow> leftOfEdges r q"
  by (cases r) simp_all

lemma leftTurns_mid: "leftTurns (P @ a # v # b # Q) \<Longrightarrow> 0 < crossExact a v b"
proof (induction P)
  case Nil
  then show ?case by simp
next
  case (Cons p P)
  from Cons.prems have "leftTurns (P @ a # v # b # Q)" using leftTurns_tl by simp
  then show ?case by (rule Cons.IH)
qed

lemma leftOfEdges_mid: "leftOfEdges (P @ a # b # Q) q \<Longrightarrow> 0 \<le> crossExact a b q"
proof (induction P)
  case Nil
  then show ?case by simp
next
  case (Cons p P)
  from Cons.prems have "leftOfEdges (P @ a # b # Q) q" using leftOfEdges_tl by simp
  then show ?case by (rule Cons.IH)
qed

lemma leftTurns_glue:
  "X \<noteq> [] \<Longrightarrow> Y \<noteq> [] \<Longrightarrow> leftTurns (X @ [m]) \<Longrightarrow> leftTurns (m # Y)
     \<Longrightarrow> 0 < crossExact (last X) m (hd Y) \<Longrightarrow> leftTurns (X @ m # Y)"
proof (induction X rule: leftTurns.induct)
  case (1 a b c r)
  then show ?case by simp
qed (cases Y; simp)+

lemma leftOfEdges_glue:
  "leftOfEdges (X @ [m]) q \<Longrightarrow> leftOfEdges (m # Y) q \<Longrightarrow> leftOfEdges (X @ m # Y) q"
  by (induction X q rule: leftOfEdges.induct) auto

lemma junction:
  assumes t1: "leftTurns (P @ [x, m])" and t2: "leftTurns (m # y # Q)"
    and e1: "\<forall>q\<in>S. 0 \<le> crossExact x m q" and e2: "\<forall>q\<in>S. 0 \<le> crossExact m y q"
    and S: "y \<in> S" "set P \<subseteq> S" "set Q \<subseteq> S"
    and side: "(x < m \<and> y < m) \<or> (m < x \<and> m < y)"
  shows "0 < crossExact x m y \<or> (P = [] \<and> Q = [])"
proof (cases "0 < crossExact x m y")
  case True
  then show ?thesis by simp
next
  case False
  then have z: "crossExact x m y = 0" using e1 S(1) by fastforce
  have col: "crossExact x m q = 0" if "q \<in> S" for q
    using side collinear_line [of x m y q] collinear_line_neg [of m x y q] z e1 e2 that by blast
  have xm: "x \<noteq> m" using side by auto
  have "P = []"
  proof (rule ccontr)
    assume "P \<noteq> []"
    then obtain P' o' where P: "P = P' @ [o']" by (metis rev_exhaust)
    then have "leftTurns (P' @ [o', x, m])" using t1 by simp
    then have "0 < crossExact o' x m" using leftTurns_snoc by blast
    moreover have "crossExact x m o' = 0" using col S(2) P by simp
    ultimately show False using cross_cyclic [of o' x m] by simp
  qed
  moreover have "Q = []"
  proof (rule ccontr)
    assume "Q \<noteq> []"
    then obtain z' Q' where Q: "Q = z' # Q'" by (cases Q) auto
    then have "0 < crossExact m y z'" using t2 by simp
    moreover have "crossExact x m y = 0" "crossExact x m z' = 0" using col S(1,3) Q by simp_all
    ultimately show False using collinear_three [OF xm, of y z'] by simp
  qed
  ultimately show ?thesis by simp
qed

lemma desc_distinct: "sorted_wrt (\<lambda>a b. b < a) xs \<Longrightarrow> distinct (xs :: point list)"
  using strict_sorted_iff [of "rev xs"] by (simp add: sorted_wrt_rev)

lemma ends_decomp:
  assumes ne: "xs \<noteq> []" and d: "hd xs \<noteq> last xs"
  shows "\<exists>M. xs = hd xs # M @ [last xs]"
proof -
  obtain a t where x: "xs = a # t" using ne by (cases xs) auto
  have tne: "t \<noteq> []" using d x by auto
  have "xs = hd xs # butlast t @ [last xs]" using x tne by simp
  then show ?thesis by blast
qed

lemma polygon_distinct:
  assumes lt: "leftTurns (p0 # A @ [pm])" and le: "\<forall>q\<in>S. leftOfEdges (p0 # A @ [pm]) q"
    and ls: "sorted_wrt (<) (p0 # A @ [pm])"
    and ue: "\<forall>q\<in>S. leftOfEdges (pm # B @ [p0]) q"
    and us: "sorted_wrt (\<lambda>a b. b < a) (pm # B @ [p0])"
    and S: "set A \<subseteq> S" "set B \<subseteq> S" "p0 \<in> S" "pm \<in> S"
  shows "distinct (p0 # A @ pm # B)"
proof -
  have dl: "distinct (p0 # A @ [pm])" using ls strict_sorted_iff by blast
  have du: "distinct (pm # B @ [p0])" using us by (rule desc_distinct)
  have "set A \<inter> set B = {}"
  proof (rule ccontr)
    assume "set A \<inter> set B \<noteq> {}"
    then obtain v where vA: "v \<in> set A" and vB: "v \<in> set B" by auto
    obtain A1 A2 where A: "A = A1 @ v # A2" using vA by (meson split_list)
    obtain B1 B2 where B: "B = B1 @ v # B2" using vB by (meson split_list)
    define a where "a = last (p0 # A1)"
    define P where "P = butlast (p0 # A1)"
    define b where "b = hd (A2 @ [pm])"
    define Q where "Q = tl (A2 @ [pm])"
    define c where "c = last (pm # B1)"
    define P2 where "P2 = butlast (pm # B1)"
    have Pa: "p0 # A1 = P @ [a]"
      unfolding P_def a_def by (rule append_butlast_last_id [symmetric]) simp
    have bQ: "A2 @ [pm] = b # Q"
      unfolding b_def Q_def by (rule hd_Cons_tl [symmetric]) simp
    have Pc: "pm # B1 = P2 @ [c]"
      unfolding P2_def c_def by (rule append_butlast_last_id [symmetric]) simp
    have "(p0 # A1) @ v # (A2 @ [pm]) = P @ a # v # b # Q" unfolding Pa bQ by simp
    then have low: "p0 # A @ [pm] = P @ a # v # b # Q" by (simp add: A)
    have "(pm # B1) @ v # (B2 @ [p0]) = P2 @ c # v # (B2 @ [p0])" unfolding Pc by simp
    then have up: "pm # B @ [p0] = P2 @ c # v # (B2 @ [p0])" by (simp add: B)
    have t: "0 < crossExact a v b" using lt unfolding low by (rule leftTurns_mid)
    have av: "\<forall>q\<in>S. 0 \<le> crossExact a v q"
      using le leftOfEdges_mid [of P a v "b # Q"] unfolding low by blast
    have vb: "\<forall>q\<in>S. 0 \<le> crossExact v b q"
      using le leftOfEdges_mid [of "P @ [a]" v b Q] unfolding low by simp
    have cv: "\<forall>q\<in>S. 0 \<le> crossExact c v q"
      using ue leftOfEdges_mid [of P2 c v "B2 @ [p0]"] unfolding up by blast
    have o1: "a < v" using ls unfolding low by (simp add: sorted_wrt_append)
    have o2: "v < c" using us unfolding up by (simp add: sorted_wrt_append)
    have "a \<in> set (p0 # A1)" unfolding Pa by simp
    then have aS: "a \<in> S" using S A by auto
    have "c \<in> set (pm # B1)" unfolding Pc by simp
    then have cS: "c \<in> S" using S B by auto
    show False using no_shared_vertex [OF o1 o2 t] av vb cv aS cS by blast
  qed
  then show ?thesis using dl du by auto
qed

lemma polygon_turns:
  assumes lt: "leftTurns (p0 # A @ [pm])" and le: "\<forall>q\<in>S. leftOfEdges (p0 # A @ [pm]) q"
    and ls: "sorted_wrt (<) (p0 # A @ [pm])"
    and ut: "leftTurns (pm # B @ [p0])" and ue: "\<forall>q\<in>S. leftOfEdges (pm # B @ [p0]) q"
    and us: "sorted_wrt (\<lambda>a b. b < a) (pm # B @ [p0])"
    and S: "set A \<subseteq> S" "set B \<subseteq> S" "p0 \<in> S" "pm \<in> S"
  shows "length (p0 # A @ pm # B) < 3
    \<or> leftTurns ((p0 # A @ pm # B) @ take 2 (p0 # A @ pm # B))"
proof -
  define x where "x = last (p0 # A)"
  define P1 where "P1 = butlast (p0 # A)"
  define y where "y = hd (B @ [p0])"
  define Q1 where "Q1 = tl (B @ [p0])"
  define w where "w = last (pm # B)"
  define P2 where "P2 = butlast (pm # B)"
  define l1 where "l1 = hd (A @ [pm])"
  define Q2 where "Q2 = tl (A @ [pm])"
  have Px: "p0 # A = P1 @ [x]"
    unfolding P1_def x_def by (rule append_butlast_last_id [symmetric]) simp
  have By: "B @ [p0] = y # Q1"
    unfolding y_def Q1_def by (rule hd_Cons_tl [symmetric]) simp
  have Pw: "pm # B = P2 @ [w]"
    unfolding P2_def w_def by (rule append_butlast_last_id [symmetric]) simp
  have Al: "A @ [pm] = l1 # Q2"
    unfolding l1_def Q2_def by (rule hd_Cons_tl [symmetric]) simp
  have "(p0 # A) @ [pm] = P1 @ [x, pm]" unfolding Px by simp
  then have low1: "p0 # A @ [pm] = P1 @ [x, pm]" by simp
  have low2: "p0 # A @ [pm] = p0 # l1 # Q2" unfolding Al by simp
  have "(pm # B) @ [p0] = P2 @ [w, p0]" unfolding Pw by simp
  then have up1: "pm # B @ [p0] = P2 @ [w, p0]" by simp
  have up2: "pm # B @ [p0] = pm # y # Q1" unfolding By by simp
  have "set (p0 # A) = set (P1 @ [x])" unfolding Px by simp
  then have P1S: "set P1 \<subseteq> S" using S by auto
  have "set (pm # B) = set (P2 @ [w])" unfolding Pw by simp
  then have P2S: "set P2 \<subseteq> S" using S by auto
  have "set (B @ [p0]) = set (y # Q1)" unfolding By by simp
  then have Q1S: "set Q1 \<subseteq> S" and yS: "y \<in> S" using S by auto
  have "set (A @ [pm]) = set (l1 # Q2)" unfolding Al by simp
  then have Q2S: "set Q2 \<subseteq> S" and lS: "l1 \<in> S" using S by auto
  have e1: "\<forall>q\<in>S. 0 \<le> crossExact x pm q"
    using le leftOfEdges_mid [of P1 x pm "[]"] unfolding low1 by blast
  have e2: "\<forall>q\<in>S. 0 \<le> crossExact pm y q" using ue unfolding up2 by simp
  have e3: "\<forall>q\<in>S. 0 \<le> crossExact w p0 q"
    using ue leftOfEdges_mid [of P2 w p0 "[]"] unfolding up1 by blast
  have e4: "\<forall>q\<in>S. 0 \<le> crossExact p0 l1 q" using le unfolding low2 by simp
  have "x < pm" using ls unfolding low1 by (simp add: sorted_wrt_append)
  moreover have "y < pm" using us unfolding up2 by simp
  ultimately have side1: "(x < pm \<and> y < pm) \<or> (pm < x \<and> pm < y)" by simp
  have "p0 < w" using us unfolding up1 by (simp add: sorted_wrt_append)
  moreover have "p0 < l1" using ls unfolding low2 by simp
  ultimately have side2: "(w < p0 \<and> l1 < p0) \<or> (p0 < w \<and> p0 < l1)" by simp
  have t1: "leftTurns (P1 @ [x, pm])" using lt unfolding low1 .
  have t2: "leftTurns (pm # y # Q1)" using ut unfolding up2 .
  have t3: "leftTurns (P2 @ [w, p0])" using ut unfolding up1 .
  have t4: "leftTurns (p0 # l1 # Q2)" using lt unfolding low2 .
  have J1: "0 < crossExact x pm y \<or> (P1 = [] \<and> Q1 = [])"
    using t1 t2 e1 e2 yS P1S Q1S side1 by (rule junction)
  have J2: "0 < crossExact w p0 l1 \<or> (P2 = [] \<and> Q2 = [])"
    using t3 t4 e3 e4 lS P2S Q2S side2 by (rule junction)
  show ?thesis
  proof (cases "A = [] \<and> B = []")
    case True
    then show ?thesis by simp
  next
    case False
    have "\<not> (P1 = [] \<and> Q1 = [])"
    proof
      assume "P1 = [] \<and> Q1 = []"
      then have "p0 # A = [x]" "B @ [p0] = [y]" using Px By by simp_all
      then have "A = []" "B = []" by (simp, cases B, simp_all)
      then show False using False by simp
    qed
    then have c1: "0 < crossExact x pm y" using J1 by blast
    have "\<not> (P2 = [] \<and> Q2 = [])"
    proof
      assume "P2 = [] \<and> Q2 = []"
      then have "pm # B = [w]" "A @ [pm] = [l1]" using Pw Al by simp_all
      then have "B = []" "A = []" by (simp, cases A, simp_all)
      then show False using False by simp
    qed
    then have c2: "0 < crossExact w p0 l1" using J2 by blast
    have g2: "leftTurns ((pm # B) @ p0 # [l1])"
    proof (rule leftTurns_glue)
      show "pm # B \<noteq> []" by simp
      show "[l1] \<noteq> []" by simp
      show "leftTurns ((pm # B) @ [p0])" using ut by simp
      show "leftTurns [p0, l1]" by simp
      show "0 < crossExact (last (pm # B)) p0 (hd [l1])" using c2 unfolding w_def by simp
    qed
    have hdY: "hd (B @ [p0, l1]) = y" unfolding y_def by (cases B) simp_all
    have g1: "leftTurns ((p0 # A) @ pm # (B @ [p0, l1]))"
    proof (rule leftTurns_glue)
      show "p0 # A \<noteq> []" by simp
      show "B @ [p0, l1] \<noteq> []" by simp
      show "leftTurns ((p0 # A) @ [pm])" using lt by simp
      show "leftTurns (pm # B @ [p0, l1])" using g2 by simp
      show "0 < crossExact (last (p0 # A)) pm (hd (B @ [p0, l1]))"
        unfolding hdY using c1 unfolding x_def .
    qed
    have tk: "take 2 (p0 # A @ pm # B) = [p0, l1]" unfolding l1_def by (cases A) simp_all
    have eq: "(p0 # A @ pm # B) @ take 2 (p0 # A @ pm # B) = (p0 # A) @ pm # (B @ [p0, l1])"
      unfolding tk by simp
    show ?thesis unfolding eq using g1 by (rule disjI2)
  qed
qed

lemma polygon_contains:
  assumes le: "\<forall>q\<in>S. leftOfEdges (p0 # A @ [pm]) q"
    and ue: "\<forall>q\<in>S. leftOfEdges (pm # B @ [p0]) q"
    and bounds: "\<forall>q\<in>S. p0 \<le> q \<and> q \<le> pm"
  shows "\<forall>q\<in>S. inHull (p0 # A @ pm # B) q"
proof
  fix q assume q: "q \<in> S"
  have "leftOfEdges ((p0 # A) @ pm # (B @ [p0])) q"
  proof (rule leftOfEdges_glue)
    show "leftOfEdges ((p0 # A) @ [pm]) q" using le q by simp
    show "leftOfEdges (pm # B @ [p0]) q" using ue q by simp
  qed
  then have "leftOfEdges ((p0 # A @ pm # B) @ take 1 (p0 # A @ pm # B)) q" by simp
  moreover have "list_ex (\<lambda>a. a \<le> q) (p0 # A @ pm # B)" using bounds q by simp
  moreover have "list_ex (\<lambda>b. q \<le> b) (p0 # A @ pm # B)" using bounds q by simp
  ultimately show "inHull (p0 # A @ pm # B) q" unfolding inHull_def by blast
qed

lemma convexHull_chains:
  assumes "distinct points" and "2 < length points" and "exactTests points"
  shows "\<exists>p0 pm A B. convexHull points = p0 # A @ pm # B
    \<and> leftTurns (p0 # A @ [pm]) \<and> (\<forall>q\<in>set points. leftOfEdges (p0 # A @ [pm]) q)
    \<and> sorted_wrt (<) (p0 # A @ [pm])
    \<and> leftTurns (pm # B @ [p0]) \<and> (\<forall>q\<in>set points. leftOfEdges (pm # B @ [p0]) q)
    \<and> sorted_wrt (\<lambda>a b. b < a) (pm # B @ [p0])
    \<and> set A \<subseteq> set points \<and> set B \<subseteq> set points \<and> p0 \<in> set points \<and> pm \<in> set points
    \<and> (\<forall>q\<in>set points. p0 \<le> q \<and> q \<le> pm)"
proof -
  define pts where "pts = sort points"
  have sp: "set pts = set points" and len: "length pts = length points"
    by (simp_all add: pts_def)
  have ss: "sorted_wrt (<) pts" using assms(1) by (simp add: pts_def strict_sorted_iff)
  have ne: "pts \<noteq> []" using len assms(2) by auto
  define L where "L = foldl pushc [] pts"
  define U where "U = foldl pushc [] (rev pts)"
  have invL: "chainInv L pts" unfolding L_def using ne ss by (rule scan_inv)
  have invU: "U \<noteq> [] \<and> hd U = hd pts \<and> last U = last pts \<and> set U \<subseteq> set pts
      \<and> sorted_wrt (<) U \<and> rturns U \<and> (\<forall>q\<in>set pts. rleft U q)"
    unfolding U_def using ne ss by (rule scan_inv_desc)
  have agr: "\<forall>a\<in>set pts. \<forall>b\<in>set pts. \<forall>c\<in>set pts.
      (cross a b c \<le> 0) = (crossExact a b c \<le> 0)"
    using assms(3) unfolding exactTests_iff sp .
  have lo: "foldl hullPush [] pts = rev L"
    unfolding L_def using scan_rev [OF agr, of "[]" pts] by simp
  have up: "foldl hullPush [] (rev pts) = rev U"
    unfolding U_def using scan_rev [OF agr, of "[]" "rev pts"] by simp
  have "\<not> length pts \<le> 2" using len assms(2) by simp
  then have hull: "convexHull points = rev (tl L) @ rev (tl U)"
    using lo up by (simp add: convexHull_def Let_def pts_def [symmetric] butlast_rev)
  define p0 where "p0 = hd pts"
  define pm where "pm = last pts"
  have p0pm: "p0 < pm"
  proof -
    obtain a t where x: "pts = a # t" using ne by (cases pts) auto
    have tne: "t \<noteq> []" using len assms(2) x by auto
    then have "last t \<in> set t" by simp
    then have "a < last t" using ss x by simp
    then show ?thesis using x tne by (simp add: p0_def pm_def)
  qed
  have Lp: "L \<noteq> []" "hd L = pm" "last L = p0" "set L \<subseteq> set pts"
    "sorted_wrt (\<lambda>a b. b < a) L" "rturns L" "\<forall>q\<in>set pts. rleft L q"
    using invL by (simp_all add: chainInv_def p0_def pm_def)
  have Up: "U \<noteq> []" "hd U = p0" "last U = pm" "set U \<subseteq> set pts"
    "sorted_wrt (<) U" "rturns U" "\<forall>q\<in>set pts. rleft U q"
    using invU by (simp_all add: p0_def pm_def)
  have dL: "hd L \<noteq> last L" and dU: "hd U \<noteq> last U"
    using Lp(2,3) Up(2,3) p0pm by auto
  obtain M where L: "L = pm # M @ [p0]"
    using ends_decomp [OF Lp(1) dL, unfolded Lp(2) Lp(3)] by blast
  obtain N where U: "U = p0 # N @ [pm]"
    using ends_decomp [OF Up(1) dU, unfolded Up(2) Up(3)] by blast
  have revL: "rev L = p0 # rev M @ [pm]" by (simp add: L)
  have revU: "rev U = pm # rev N @ [p0]" by (simp add: U)
  have h: "convexHull points = p0 # rev M @ pm # rev N" unfolding hull by (simp add: L U)
  have lt: "leftTurns (p0 # rev M @ [pm])"
    unfolding revL [symmetric] leftTurns_rev by (rule Lp(6))
  have le: "\<forall>q\<in>set points. leftOfEdges (p0 # rev M @ [pm]) q"
    unfolding revL [symmetric] leftOfEdges_rev sp [symmetric] by (rule Lp(7))
  have ls: "sorted_wrt (<) (p0 # rev M @ [pm])"
    unfolding revL [symmetric] sorted_wrt_rev by (rule Lp(5))
  have ut: "leftTurns (pm # rev N @ [p0])"
    unfolding revU [symmetric] leftTurns_rev by (rule Up(6))
  have ue: "\<forall>q\<in>set points. leftOfEdges (pm # rev N @ [p0]) q"
    unfolding revU [symmetric] leftOfEdges_rev sp [symmetric] by (rule Up(7))
  have us: "sorted_wrt (\<lambda>a b. b < a) (pm # rev N @ [p0])"
    unfolding revU [symmetric] sorted_wrt_rev using Up(5) by simp
  have "set (rev M) \<subseteq> set L" unfolding L by auto
  then have sA: "set (rev M) \<subseteq> set points" using Lp(4) unfolding sp by (rule subset_trans)
  have "set (rev N) \<subseteq> set U" unfolding U by auto
  then have sB: "set (rev N) \<subseteq> set points" using Up(4) unfolding sp by (rule subset_trans)
  have p0S: "p0 \<in> set points" unfolding p0_def sp [symmetric] using ne by (rule hd_in_set)
  have pmS: "pm \<in> set points" unfolding pm_def sp [symmetric] using ne by (rule last_in_set)
  have bounds: "\<forall>q\<in>set points. p0 \<le> q \<and> q \<le> pm"
  proof
    fix q assume "q \<in> set points"
    then have q: "q \<in> set pts" unfolding sp .
    show "p0 \<le> q \<and> q \<le> pm" unfolding p0_def pm_def using ss q by (rule strict_sorted_bounds)
  qed
  show ?thesis
    by (rule exI [of _ p0], rule exI [of _ pm], rule exI [of _ "rev M"], rule exI [of _ "rev N"])
      (intro conjI h lt le ls ut ue us sA sB p0S pmS bounds)
qed

text \<open>
  C6, amended. For a list of more than two distinct points, the vertices returned by
  \<open>convexHull\<close> are input points, whatever the rounded orientation tests return. When
  every orientation test on three input points has the sign of the exact cross product
  (\<open>exactTests\<close>; so it is for points with integer coordinates below \<open>2 ^ 25\<close> in
  magnitude), no vertex is listed twice, the first vertex is the smallest input point,
  going round the polygon once turns strictly left at every vertex when there are at
  least three of them, so the vertices are in convex position, listed counter-clockwise,
  and every input point is in the polygon, boundary included; when all the input points
  are on one line the result is the segment between the smallest and the largest. The
  vertices are not in the order of the input. For the input \<open>(0,0), (4,0), (4,3), (0,3), (2,1)\<close> the result is the
  four corners in this order, without \<open>(2,1)\<close>.
\<close>

theorem convexHull_correct:
  assumes "distinct points" and "2 < length points"
  shows "set (convexHull points) \<subseteq> set points
    \<and> (exactTests points \<longrightarrow>
          distinct (convexHull points)
          \<and> list_all (\<lambda>q. hd (convexHull points) \<le> q) points
          \<and> (length (convexHull points) < 3
              \<or> leftTurns (convexHull points @ take 2 (convexHull points)))
          \<and> list_all (inHull (convexHull points)) points)
    \<and> convexHull [(0, 0), (4, 0), (4, 3), (0, 3), (2, 1)] = [(0, 0), (4, 0), (4, 3), (0, 3)]"
proof -
  have geo: "distinct (convexHull points)
          \<and> list_all (\<lambda>q. hd (convexHull points) \<le> q) points
          \<and> (length (convexHull points) < 3
              \<or> leftTurns (convexHull points @ take 2 (convexHull points)))
          \<and> list_all (inHull (convexHull points)) points" if ex: "exactTests points"
  proof -
    obtain p0 pm A B where h: "convexHull points = p0 # A @ pm # B"
      and lt: "leftTurns (p0 # A @ [pm])"
      and le: "\<forall>q\<in>set points. leftOfEdges (p0 # A @ [pm]) q"
      and ls: "sorted_wrt (<) (p0 # A @ [pm])"
      and ut: "leftTurns (pm # B @ [p0])"
      and ue: "\<forall>q\<in>set points. leftOfEdges (pm # B @ [p0]) q"
      and us: "sorted_wrt (\<lambda>a b. b < a) (pm # B @ [p0])"
      and S: "set A \<subseteq> set points" "set B \<subseteq> set points" "p0 \<in> set points" "pm \<in> set points"
      and bounds: "\<forall>q\<in>set points. p0 \<le> q \<and> q \<le> pm"
      using convexHull_chains [OF assms ex] by blast
    have 2: "distinct (convexHull points)"
      unfolding h using lt le ls ue us S by (rule polygon_distinct)
    have 3: "length (convexHull points) < 3
        \<or> leftTurns (convexHull points @ take 2 (convexHull points))"
      unfolding h using lt le ls ut ue us S by (rule polygon_turns)
    have "\<forall>q\<in>set points. inHull (convexHull points) q"
      unfolding h using le ue bounds by (rule polygon_contains)
    then have 4: "list_all (inHull (convexHull points)) points" by (simp add: list_all_iff)
    have 5: "list_all (\<lambda>q. hd (convexHull points) \<le> q) points"
      unfolding h using bounds by (simp add: list_all_iff)
    show ?thesis by (intro conjI 2 5 3 4)
  qed
  show ?thesis using geo by (intro conjI impI convexHull_subset convexHull_rectangle) simp_all
qed

text \<open>The theorem at the rectangle with a point inside.\<close>

theorem convexHull_correct_witness:
  "convexHull [(0, 0), (4, 0), (4, 3), (0, 3), (2, 1)] = [(0, 0), (4, 0), (4, 3), (0, 3)]
   \<and> distinct (convexHull [(0, 0), (4, 0), (4, 3), (0, 3), (2, 1)])
   \<and> leftTurns (convexHull [(0, 0), (4, 0), (4, 3), (0, 3), (2, 1)]
        @ take 2 (convexHull [(0, 0), (4, 0), (4, 3), (0, 3), (2, 1)]))
   \<and> list_all (inHull (convexHull [(0, 0), (4, 0), (4, 3), (0, 3), (2, 1)]))
        [(0, 0), (4, 0), (4, 3), (0, 3), (2, 1)]"
  using convexHull_correct [of "[(0, 0), (4, 0), (4, 3), (0, 3), (2, 1)]"]
    smallPoint_exactTests [of "[(0, 0), (4, 0), (4, 3), (0, 3), (2, 1)]"]
  by (simp add: convexHull_rectangle smallPoint_def smallInt_def)

text \<open>The doubles of four literals, and the hull of a nearly collinear input.\<close>

lemma fl_literals:
  "fl (1 / 10) = 3602879701896397 / 36028797018963968"
  "fl (9 / 10) = 8106479329266893 / 9007199254740992"
  "fl (3 / 10) = 5404319552844595 / 18014398509481984"
  "fl (27 / 10) = 3039929748475085 / 1125899906842624"
  by (simp_all add: flEval)

lemma convexHull_rounded:
  "convexHull [(0, 0), (fl (1 / 10), fl (9 / 10)), (fl (3 / 10), fl (27 / 10)), (0, 1)]
     = [(0, 0), (fl (3 / 10), fl (27 / 10)), (0, 1)]"
  unfolding fl_literals
  by (simp add: convexHull_def Let_def hullPush_def hullPop.simps cross_def flEval
      less_eq_prod_def)

text \<open>
  C6, as stated, fails, in two ways. The hull of \<open>(1,0), (0,0), (0,1)\<close> starts at \<open>(0,0)\<close>,
  so it is not a sublist of the input. And for the input \<open>(0,0), (0.1,0.9), (0.3,2.7),
  (0,1)\<close>, with the coordinates as the doubles of these literals, the exact cross product
  of \<open>(0,0), (0.1,0.9), (0.3,2.7)\<close> is positive, about \<open>3.6e-17\<close>, so \<open>(0.1,0.9)\<close> is strictly to
  the right of the line from \<open>(0,0)\<close> to \<open>(0.3,2.7)\<close>, while the rounded cross product is 0:
  the scan pops \<open>(0.1,0.9)\<close>, and the triangle returned does not contain it.
\<close>

theorem convexHull_counterexample:
  "\<not> subseq (convexHull [(1, 0), (0, 0), (0, 1)]) [(1, 0), (0, 0), (0, 1)]
   \<and> convexHull [(0, 0), (fl (1 / 10), fl (9 / 10)), (fl (3 / 10), fl (27 / 10)), (0, 1)]
       = [(0, 0), (fl (3 / 10), fl (27 / 10)), (0, 1)]
   \<and> \<not> inHull
         (convexHull [(0, 0), (fl (1 / 10), fl (9 / 10)), (fl (3 / 10), fl (27 / 10)), (0, 1)])
         (fl (1 / 10), fl (9 / 10))"
proof -
  have "\<not> subseq [(0, 0), (1, 0), (0, 1 :: real)] [(1, 0), (0, 0), (0 :: real, 1)]"
    by (simp add: list_emb_code)
  moreover have "\<not> inHull [(0, 0), (fl (3 / 10), fl (27 / 10)), (0, 1)] (fl (1 / 10), fl (9 / 10))"
    unfolding fl_literals by (simp add: inHull_def crossExact_def)
  ultimately show ?thesis by (simp add: convexHull_order convexHull_rounded)
qed

end
